theory Spec2Isabelle
  imports Main "HOL-Library.FSet" "HOL-Library.Sublist" "HOL-Library.Word"
begin

section \<open>Data model of the collaboration server (src/server/main.py)\<close>

text \<open>
  A WebSocket object and a DocumentRoom object are known to the program only through their
  identity, so both are numbers: \<open>conn\<close> names a WebSocket, \<open>ref\<close> the address of a
  DocumentRoom object. A binary message is a list of bytes. \<open>datetime.now()\<close> is an
  input of the environment: every function that reads the clock takes the reading as a
  parameter.
\<close>

type_synonym conn = nat
type_synonym ref = nat
type_synonym bytes = "8 word list"
type_synonym time = nat

text \<open>
  The exceptions of the program. All of them are subclasses of Python's \<open>Exception\<close>, so
  the clause \<open>except Exception\<close> catches every value of this type. \<open>RuntimeError\<close> is
  what the transport raises for a send on a closed connection, and what the \<open>for\<close>
  statement raises when the set it runs over has changed size; \<open>OSError\<close> and
  \<open>ValueError\<close> come from the file system and from \<open>json.load\<close>,
  \<open>RecursionError\<close> from \<open>json.dump\<close>.
\<close>

datatype exn =
    WebSocketDisconnect | RuntimeError | KeyError | OSError | ValueError | RecursionError
  | HTTPException nat string

datatype 'a result = Returns 'a | Raises exn

text \<open>class DocumentRoom, with the fields that \<open>__init__\<close> sets.\<close>

record DocumentRoom =
  room_id :: string
  connections :: "conn fset"
  state :: bytes
  last_updated :: time

definition DocumentRoom_init :: "string \<Rightarrow> time \<Rightarrow> DocumentRoom" where
  "DocumentRoom_init rid now =
     \<lparr>room_id = rid, connections = {||}, state = [], last_updated = now\<rparr>"

text \<open>
  The transport under the WebSocket objects. \<open>failing\<close> says on which endpoints a call of
  \<open>send_bytes\<close> raises, and what; \<open>sent\<close> records, for every endpoint, the calls of
  \<open>send_bytes\<close> on it in call order, each with its message and whether it completed.
\<close>

record transport =
  failing :: "conn \<rightharpoonup> exn"
  sent :: "conn \<Rightarrow> (bytes \<times> bool) list"

definition send_bytes :: "conn \<Rightarrow> bytes \<Rightarrow> transport \<Rightarrow> unit result \<times> transport" where
  "send_bytes c message t =
     (case failing t c of
        None \<Rightarrow> (Returns (), t\<lparr>sent := (sent t)(c := sent t c @ [(message, True)])\<rparr>)
      | Some e \<Rightarrow> (Raises e, t\<lparr>sent := (sent t)(c := sent t c @ [(message, False)])\<rparr>))"

subsection \<open>Control flow\<close>

text \<open>
  \<open>for x in the_set: body\<close>, for a set that the body, or another handler while the body is
  suspended, may change. The iterator remembers the size of the set when the loop starts
  (\<open>used\<close>) and walks the slots of the table (\<open>ahead\<close> lists the elements in the slots
  not yet visited). Every step of the loop, the one that finds the end included, first
  compares the size of the set as it is now with \<open>used\<close> and raises RuntimeError when
  they differ. A slot whose element has left the set meanwhile is passed over. An element
  that joined while the size stayed the same is taken to sit in a slot already visited.
  An exception that leaves the body leaves the loop.
  \<open>try: body except Exception as e: handler\<close> runs the handler on every exception of the
  body.
\<close>

fun for_in_set ::
  "'a list \<Rightarrow> nat \<Rightarrow> ('s \<Rightarrow> 'a fset) \<Rightarrow> ('a \<Rightarrow> 's \<Rightarrow> unit result \<times> 's) \<Rightarrow> 's \<Rightarrow> unit result \<times> 's" where
  "for_in_set [] used the_set body s =
     (if fcard (the_set s) \<noteq> used then (Raises RuntimeError, s) else (Returns (), s))"
| "for_in_set (x # ahead) used the_set body s =
     (if fcard (the_set s) \<noteq> used then (Raises RuntimeError, s)
      else if x |\<notin>| the_set s then for_in_set ahead used the_set body s
      else (case body x s of
              (Returns u, s') \<Rightarrow> for_in_set ahead used the_set body s'
            | (Raises e, s') \<Rightarrow> (Raises e, s')))"

definition try_except ::
  "('s \<Rightarrow> unit result \<times> 's) \<Rightarrow> (exn \<Rightarrow> 's \<Rightarrow> unit result \<times> 's) \<Rightarrow> 's \<Rightarrow> unit result \<times> 's" where
  "try_except body handler s =
     (case body s of
        (Returns u, s') \<Rightarrow> (Returns u, s')
      | (Raises e, s') \<Rightarrow> handler e s')"

subsection \<open>DocumentRoom.broadcast\<close>

text \<open>
  \<open>await connection.send_bytes(message)\<close> suspends the broadcast, and the other handlers
  may run until it resumes: a client joins (\<open>room.connections.add\<close>), a handler ends
  (\<open>room.connections.remove\<close>), another broadcast removes its failed recipients. What
  they do to \<open>self.connections\<close> while the send to a connection is suspended is the
  interference \<open>during\<close>: it takes the connection and the members before the
  suspension to the members after it. \<open>undisturbed\<close> is a call during which no other
  handler runs; \<open>joins w\<close> is a call during which the connection \<open>w\<close> joins while
  the first send is suspended.
\<close>

type_synonym interference = "conn \<Rightarrow> conn fset \<Rightarrow> conn fset"

definition undisturbed :: interference where
  "undisturbed connection members = members"

definition joins :: "conn \<Rightarrow> interference" where
  "joins w connection members = finsert w members"

text \<open>
  The loop state is the set \<open>self.connections\<close>, the local set \<open>disconnected\<close> and the
  transport. The body of the loop: a connection other than \<open>exclude\<close> is sent the
  message, the other handlers run while the send is suspended, and when the send raises,
  the handler adds the connection to \<open>disconnected\<close> (the log line has no effect on the
  state). Python visits the slots of a set in an order of its own; the model visits the
  members in the order of their identities. \<open>broadcast_loop_any_order\<close> shows that the
  order does not matter to an undisturbed call, and \<open>join_during_first_send\<close> that it
  does not matter to what a join during the first send does.

  When the loop ends normally, \<open>self.connections -= disconnected\<close> runs on the set as it
  is then; when RuntimeError leaves the loop, that line is skipped and the exception
  leaves \<open>broadcast\<close>.
\<close>

definition broadcast_body ::
  "bytes \<Rightarrow> conn option \<Rightarrow> interference \<Rightarrow> conn \<Rightarrow>
   conn fset \<times> conn fset \<times> transport \<Rightarrow> unit result \<times> conn fset \<times> conn fset \<times> transport" where
  "broadcast_body message exclude during connection =
     (if Some connection \<noteq> exclude
      then try_except
             (\<lambda>(members, disconnected, t).
                case send_bytes connection message t of
                  (r, t') \<Rightarrow> (r, (during connection members, disconnected, t')))
             (\<lambda>e (members, disconnected, t).
                (Returns (), (members, finsert connection disconnected, t)))
      else (\<lambda>s. (Returns (), s)))"

definition broadcast_loop ::
  "conn list \<Rightarrow> bytes \<Rightarrow> conn option \<Rightarrow> interference \<Rightarrow> conn fset \<Rightarrow> transport \<Rightarrow>
   unit result \<times> conn fset \<times> conn fset \<times> transport" where
  "broadcast_loop order message exclude during members t =
     for_in_set order (fcard members) fst (broadcast_body message exclude during)
       (members, {||}, t)"

definition broadcast ::
  "bytes \<Rightarrow> conn option \<Rightarrow> interference \<Rightarrow> DocumentRoom \<Rightarrow> transport \<Rightarrow>
   unit result \<times> DocumentRoom \<times> transport" where
  "broadcast message exclude during self t =
     (case broadcast_loop (sorted_list_of_fset (connections self)) message exclude during
             (connections self) t of
        (Returns u, (members, disconnected, t')) \<Rightarrow>
          (Returns (), (self\<lparr>connections := members |-| disconnected\<rparr>, t'))
      | (Raises e, (members, disconnected, t')) \<Rightarrow>
          (Raises e, (self\<lparr>connections := members\<rparr>, t')))"

subsection \<open>The registry of rooms and the running handlers\<close>

text \<open>
  The state of the server process. \<open>rooms\<close> is the global dictionary; its values are
  references into \<open>heap\<close>, where the DocumentRoom objects live, so that a handler and the
  dictionary can hold the same object. \<open>next_ref\<close> is the next free address: the
  addresses below it are the objects created so far. \<open>sessions\<close> holds, for every
  running \<open>websocket_sync\<close> handler, its parameter \<open>room_id\<close> and its local variable
  \<open>room\<close>; \<open>finished\<close> holds how each handler that has ended ended.
\<close>

record server =
  rooms :: "string \<rightharpoonup> ref"
  heap :: "ref \<Rightarrow> DocumentRoom"
  next_ref :: ref
  net :: transport
  sessions :: "conn \<rightharpoonup> string \<times> ref"
  finished :: "conn \<rightharpoonup> unit result"

definition initial_server :: server where
  "initial_server =
     \<lparr>rooms = Map.empty, heap = (\<lambda>r. DocumentRoom_init [] 0), next_ref = 0,
      net = \<lparr>failing = Map.empty, sent = (\<lambda>c. [])\<rparr>,
      sessions = Map.empty, finished = Map.empty\<rparr>"

definition update_room :: "ref \<Rightarrow> (DocumentRoom \<Rightarrow> DocumentRoom) \<Rightarrow> server \<Rightarrow> server" where
  "update_room r f s = s\<lparr>heap := (heap s)(r := f (heap s r))\<rparr>"

definition get_or_create_room :: "string \<Rightarrow> time \<Rightarrow> server \<Rightarrow> ref \<times> server" where
  "get_or_create_room rid now s =
     (case rooms s rid of
        None \<Rightarrow>
          (next_ref s,
           s\<lparr>heap := (heap s)(next_ref s := DocumentRoom_init rid now),
             next_ref := Suc (next_ref s),
             rooms := (rooms s)(rid \<mapsto> next_ref s)\<rparr>)
      | Some r \<Rightarrow> (r, s))"

subsection \<open>websocket\_sync\<close>

text \<open>
  The \<open>finally\<close> block. \<open>set.remove\<close> raises KeyError on an absent element, and so does
  \<open>del\<close> on an absent key; an exception leaves the block at once.
\<close>

definition websocket_sync_finally :: "conn \<Rightarrow> string \<Rightarrow> ref \<Rightarrow> server \<Rightarrow> unit result \<times> server" where
  "websocket_sync_finally websocket rid room s =
     (if websocket |\<notin>| connections (heap s room) then (Raises KeyError, s)
      else
        let s1 = update_room room (\<lambda>r. r\<lparr>connections := connections r |-| {|websocket|}\<rparr>) s
        in if connections (heap s1 room) = {||}
           then (if rooms s1 rid = None then (Raises KeyError, s1)
                 else (Returns (), s1\<lparr>rooms := (rooms s1)(rid := None)\<rparr>))
           else (Returns (), s1))"

text \<open>
  An exception \<open>e\<close> raised inside the \<open>try\<close> block. Both \<open>except\<close> clauses only write
  a log line, so the handler goes on to the \<open>finally\<close> block whatever \<open>e\<close> is; it
  returns normally when the block completes, and ends with the block's exception
  otherwise.
\<close>

definition websocket_sync_leave :: "conn \<Rightarrow> string \<Rightarrow> ref \<Rightarrow> exn \<Rightarrow> server \<Rightarrow> server" where
  "websocket_sync_leave websocket rid room e s =
     (case websocket_sync_finally websocket rid room s of
        (outcome, s') \<Rightarrow>
          s'\<lparr>sessions := (sessions s')(websocket := None),
             finished := (finished s')(websocket \<mapsto> outcome)\<rparr>)"

text \<open>From \<open>accept\<close> to the first \<open>receive_bytes\<close>.\<close>

definition websocket_sync_enter :: "conn \<Rightarrow> string \<Rightarrow> time \<Rightarrow> server \<Rightarrow> server" where
  "websocket_sync_enter websocket rid now s =
     (case get_or_create_room rid now s of
        (room, s1) \<Rightarrow>
          (let s2 = update_room room
                      (\<lambda>r. r\<lparr>connections := finsert websocket (connections r)\<rparr>) s1
           in (case (if state (heap s2 room) \<noteq> []
                     then send_bytes websocket (state (heap s2 room)) (net s2)
                     else (Returns (), net s2)) of
                 (Returns u, t') \<Rightarrow>
                   s2\<lparr>net := t', sessions := (sessions s2)(websocket \<mapsto> (rid, room))\<rparr>
               | (Raises e, t') \<Rightarrow>
                   websocket_sync_leave websocket rid room e (s2\<lparr>net := t'\<rparr>))))"

text \<open>
  One turn of the \<open>while True\<close> loop, on a message that \<open>receive_bytes\<close> returned. In
  the machine below the handlers take turns at \<open>receive_bytes\<close>, so the broadcast of a
  turn runs undisturbed; what a disturbed broadcast does is stated for \<open>broadcast\<close>
  itself.
\<close>

definition websocket_sync_loop_body ::
  "conn \<Rightarrow> string \<Rightarrow> ref \<Rightarrow> bytes \<Rightarrow> time \<Rightarrow> server \<Rightarrow> server" where
  "websocket_sync_loop_body websocket rid room data now s =
     (let s1 = update_room room (\<lambda>r. r\<lparr>state := state r @ data\<rparr>) s;
          s2 = update_room room (\<lambda>r. r\<lparr>last_updated := now\<rparr>) s1
      in (case broadcast data (Some websocket) undisturbed (heap s2 room) (net s2) of
            (Returns u, (self', t')) \<Rightarrow> s2\<lparr>heap := (heap s2)(room := self'), net := t'\<rparr>
          | (Raises e, (self', t')) \<Rightarrow>
              websocket_sync_leave websocket rid room e
                (s2\<lparr>heap := (heap s2)(room := self'), net := t'\<rparr>)))"

text \<open>
  What happens to the server, one event at a time. A handler runs from one
  \<open>receive_bytes\<close> to the next as one step: a client connects, \<open>receive_bytes\<close> of a
  running handler returns a message, or it raises. The sends inside a step complete or
  raise before another handler runs, so the steps of different handlers interleave, and
  the statements inside one step do not: the runs of the machine are the executions in
  which no handler runs while another is suspended in a send. \<open>SendFails\<close> is the
  environment breaking the sending side of an endpoint. A WebSocket object serves one
  connection, so a
  \<open>Connect\<close> with the identity of a running or finished handler does not occur; the step
  ignores it, as it ignores a receive event of a handler that is not running.
\<close>

datatype event =
    Connect conn string time
  | Receive conn bytes time
  | ReceiveRaises conn exn
  | SendFails conn exn

fun step :: "event \<Rightarrow> server \<Rightarrow> server" where
  "step (Connect c rid now) s =
     (if sessions s c \<noteq> None \<or> finished s c \<noteq> None then s
      else websocket_sync_enter c rid now s)"
| "step (Receive c data now) s =
     (case sessions s c of
        None \<Rightarrow> s
      | Some (rid, room) \<Rightarrow> websocket_sync_loop_body c rid room data now s)"
| "step (ReceiveRaises c e) s =
     (case sessions s c of
        None \<Rightarrow> s
      | Some (rid, room) \<Rightarrow> websocket_sync_leave c rid room e s)"
| "step (SendFails c e) s = s\<lparr>net := (net s)\<lparr>failing := (failing (net s))(c \<mapsto> e)\<rparr>\<rparr>"

fun run :: "event list \<Rightarrow> server \<Rightarrow> server" where
  "run [] s = s"
| "run (e # es) s = run es (step e s)"

text \<open>
  The updates that the room object \<open>r\<close> accepts during a run, in the order of acceptance:
  the messages received by the handlers whose local variable \<open>room\<close> is \<open>r\<close>.
\<close>

fun accepted_by :: "ref \<Rightarrow> event list \<Rightarrow> server \<Rightarrow> bytes list" where
  "accepted_by r [] s = []"
| "accepted_by r (Receive c data now # es) s =
     (case sessions s c of
        None \<Rightarrow> accepted_by r es (step (Receive c data now) s)
      | Some (rid, room) \<Rightarrow>
          (if room = r then [data] else []) @ accepted_by r es (step (Receive c data now) s))"
| "accepted_by r (e # es) s = accepted_by r es (step e s)"

subsection \<open>Document persistence\<close>

text \<open>
  A JSON value, as \<open>json.loads\<close> hands it to the program. A float is the IEEE double
  that Python holds, given by its 64 bits (of the NaNs only the one that \<open>json.loads\<close>
  makes occurs); \<open>json.dump\<close> writes a float as the shortest decimal that reads back
  as the same double, and the infinities and the NaN by their names, so \<open>json.load\<close>
  reads back what \<open>json.dump\<close> wrote. The time stamp of a save is the string that
  \<open>datetime.now().isoformat()\<close> returns. \<open>depth\<close> is the nesting depth of the
  arrays and objects of a value.
\<close>

datatype json =
    JNull | JBool bool | JInt int | JFloat "64 word" | JStr string | JArr "json list"
  | JObj "(string \<times> json) list"

primrec depth :: "json \<Rightarrow> nat" where
  "depth JNull = 0"
| "depth (JBool b) = 0"
| "depth (JInt i) = 0"
| "depth (JFloat x) = 0"
| "depth (JStr s) = 0"
| "depth (JArr js) = Suc (foldr max (map depth js) 0)"
| "depth (JObj kvs) = Suc (foldr max (map snd (map (map_prod id depth) kvs)) 0)"

text \<open>
  What has been written to a file: a complete JSON text, or the beginning of one, cut
  where so many arrays and objects were open.
\<close>

datatype written = Complete json | Partial nat

fun nesting :: "written \<Rightarrow> nat" where
  "nesting (Complete obj) = depth obj"
| "nesting (Partial k) = k"

text \<open>
  The store is the directory \<open>./data/documents\<close>, on a file system that compares names
  byte by byte: \<open>documents\<close> is \<open>None\<close> as long as the directory does not exist, and
  maps a file name to what has been written to the file otherwise. \<open>name_max\<close> is the
  longest file name, in bytes, that the file system takes (255 on the common ones).
  \<open>json.dump\<close> and \<open>json.load\<close> descend into a nested value by recursion, and the
  interpreter bounds the recursion: \<open>dump_max\<close> is the deepest nesting that
  \<open>json.dump\<close> gets through where \<open>save_document\<close> calls it, \<open>load_max\<close> the
  deepest that \<open>json.load\<close> gets through where \<open>get_document\<close> calls it. An
  identifier is the byte string that the file system sees. The route hands over one path
  segment, so an identifier holds no \<open>/\<close> and \<open>file_name\<close> is the last component of
  \<open>doc_path\<close>, the only one that depends on the identifier.
\<close>

record store =
  name_max :: nat
  dump_max :: nat
  load_max :: nat
  documents :: "(string \<rightharpoonup> written) option"

definition file_name :: "string \<Rightarrow> string" where
  "file_name doc_id = doc_id @ ''.json''"

definition lookup :: "string \<Rightarrow> store \<Rightarrow> written option" where
  "lookup doc_id fs =
     (case documents fs of None \<Rightarrow> None | Some dir \<Rightarrow> dir (file_name doc_id))"

text \<open>
  \<open>Path.exists()\<close> asks the file system for the status of the path. A path with a NUL
  byte never reaches the file system: Python raises ValueError, which \<open>exists\<close> turns
  into False. Without the directory the answer is ENOENT, which \<open>exists\<close> turns into
  False as well. In the directory, a file name that is too long makes the file system
  answer ENAMETOOLONG, an OSError that \<open>exists\<close> passes on.
  \<open>mkdir(parents=True, exist_ok=True)\<close> creates the directory when it is not there.
  \<open>open(doc_path, 'w')\<close> raises ValueError on a NUL byte and OSError without the
  directory or on a name that is too long; otherwise it creates the file, or empties the
  one that is there. \<open>unlink\<close> removes the file.
\<close>

definition path_exists :: "string \<Rightarrow> store \<Rightarrow> bool result" where
  "path_exists doc_id fs =
     (if CHR 0x00 \<in> set doc_id then Returns False
      else case documents fs of
             None \<Rightarrow> Returns False
           | Some dir \<Rightarrow>
               if name_max fs < length (file_name doc_id) then Raises OSError
               else Returns (dir (file_name doc_id) \<noteq> None))"

definition mkdir_parents :: "store \<Rightarrow> store" where
  "mkdir_parents fs =
     (case documents fs of None \<Rightarrow> fs\<lparr>documents := Some Map.empty\<rparr> | Some dir \<Rightarrow> fs)"

definition open_for_writing :: "string \<Rightarrow> store \<Rightarrow> unit result" where
  "open_for_writing doc_id fs =
     (if CHR 0x00 \<in> set doc_id then Raises ValueError
      else case documents fs of
             None \<Rightarrow> Raises OSError
           | Some dir \<Rightarrow>
               if name_max fs < length (file_name doc_id) then Raises OSError
               else Returns ())"

definition write_file :: "string \<Rightarrow> written \<Rightarrow> store \<Rightarrow> store" where
  "write_file doc_id text fs =
     fs\<lparr>documents := map_option (\<lambda>dir. dir(file_name doc_id \<mapsto> text)) (documents fs)\<rparr>"

definition unlink :: "string \<Rightarrow> store \<Rightarrow> store" where
  "unlink doc_id fs =
     fs\<lparr>documents := map_option (\<lambda>dir. dir(file_name doc_id := None)) (documents fs)\<rparr>"

text \<open>
  The record that a save writes. \<open>json.dump\<close> writes the text piece by piece: on a
  value nested deeper than \<open>limit\<close> it raises RecursionError when it has opened
  \<open>limit\<close> arrays and objects, and the file keeps what was written until then.
  \<open>json.load\<close> raises RecursionError on a text nested deeper than its limit, and
  JSONDecodeError, which is a ValueError, on a text that is cut short.
\<close>

definition stored_record :: "string \<Rightarrow> (string \<times> json) list \<Rightarrow> string \<Rightarrow> json" where
  "stored_record doc_id content now =
     JObj [(''id'', JStr doc_id), (''content'', JObj content), (''updated_at'', JStr now)]"

definition json_dump :: "json \<Rightarrow> nat \<Rightarrow> unit result \<times> written" where
  "json_dump obj limit =
     (if limit < depth obj then (Raises RecursionError, Partial limit)
      else (Returns (), Complete obj))"

definition json_load :: "written \<Rightarrow> nat \<Rightarrow> json result" where
  "json_load text limit =
     (if limit < nesting text then Raises RecursionError
      else case text of
             Complete obj \<Rightarrow> Returns obj
           | Partial k \<Rightarrow> Raises ValueError)"

definition save_document ::
  "string \<Rightarrow> (string \<times> json) list \<Rightarrow> string \<Rightarrow> store \<Rightarrow> json result \<times> store" where
  "save_document doc_id content now fs =
     (let fs1 = mkdir_parents fs
      in case open_for_writing doc_id fs1 of
           Raises e \<Rightarrow> (Raises e, fs1)
         | Returns u \<Rightarrow>
             (case json_dump (stored_record doc_id content now) (dump_max fs1) of
                (Raises e, text) \<Rightarrow> (Raises e, write_file doc_id text fs1)
              | (Returns u, text) \<Rightarrow>
                  (Returns (JObj [(''status'', JStr ''saved''), (''doc_id'', JStr doc_id)]),
                   write_file doc_id text fs1)))"

definition get_document :: "string \<Rightarrow> store \<Rightarrow> json result \<times> store" where
  "get_document doc_id fs =
     (case path_exists doc_id fs of
        Raises e \<Rightarrow> (Raises e, fs)
      | Returns False \<Rightarrow> (Raises (HTTPException 404 ''Document not found''), fs)
      | Returns True \<Rightarrow>
          (case lookup doc_id fs of
             None \<Rightarrow> (Raises OSError, fs)
           | Some text \<Rightarrow> (json_load text (load_max fs), fs)))"

definition delete_document :: "string \<Rightarrow> store \<Rightarrow> json result \<times> store" where
  "delete_document doc_id fs =
     (case path_exists doc_id fs of
        Raises e \<Rightarrow> (Raises e, fs)
      | Returns True \<Rightarrow>
          (Returns (JObj [(''status'', JStr ''deleted''), (''doc_id'', JStr doc_id)]),
           unlink doc_id fs)
      | Returns False \<Rightarrow> (Raises (HTTPException 404 ''Document not found''), fs))"

text \<open>
  An identifier whose file name the file system takes, and the store of a server that
  has not saved anything yet.
\<close>

definition storable :: "nat \<Rightarrow> string \<Rightarrow> bool" where
  "storable n doc_id \<longleftrightarrow>
     CHR 0x00 \<notin> set doc_id \<and> CHR ''/'' \<notin> set doc_id \<and> length (file_name doc_id) \<le> n"

definition empty_store :: "nat \<Rightarrow> nat \<Rightarrow> nat \<Rightarrow> store" where
  "empty_store n k l = \<lparr>name_max = n, dump_max = k, load_max = l, documents = None\<rparr>"

text \<open>
  The requests to the persistence endpoints that change the store, and the store after a
  list of them. \<open>last_saved k d qs doc\<close> follows the file of one document through the
  requests, on a store with \<open>dump_max = k\<close>: it is what the last save of \<open>d\<close> wrote
  when no delete of \<open>d\<close> came after it, \<open>None\<close> when \<open>d\<close> was deleted last, and
  \<open>doc\<close> when no request names \<open>d\<close>.
\<close>

datatype request = Save string "(string \<times> json) list" string | Delete string

fun serve :: "request \<Rightarrow> store \<Rightarrow> store" where
  "serve (Save doc_id content now) fs = snd (save_document doc_id content now fs)"
| "serve (Delete doc_id) fs = snd (delete_document doc_id fs)"

fun serve_all :: "request list \<Rightarrow> store \<Rightarrow> store" where
  "serve_all [] fs = fs"
| "serve_all (q # qs) fs = serve_all qs (serve q fs)"

fun last_saved :: "nat \<Rightarrow> string \<Rightarrow> request list \<Rightarrow> written option \<Rightarrow> written option" where
  "last_saved k d [] doc = doc"
| "last_saved k d (Save doc_id content now # qs) doc =
     last_saved k d qs
       (if doc_id = d then Some (snd (json_dump (stored_record doc_id content now) k)) else doc)"
| "last_saved k d (Delete doc_id # qs) doc =
     last_saved k d qs (if doc_id = d then None else doc)"

subsection \<open>Invariants of the runs\<close>

text \<open>
  \<open>wf_server\<close>: the handlers and the registry refer to objects that exist, and the cells
  past the last object hold no state. \<open>strangers_ok\<close>: a connection that has never
  connected has been sent nothing and is a member of no room. \<open>registry_ok\<close>: a
  registered room and the room of a handler carry the identifier they are known under, and
  a room that has a member is the registered one. \<open>calm\<close>: no endpoint is failing, every
  running handler is a member of its room, every registered room has a member, and every
  handler that ended returned normally.
\<close>

definition wf_server :: "server \<Rightarrow> bool" where
  "wf_server s \<longleftrightarrow>
     (\<forall>c rid r. sessions s c = Some (rid, r) \<longrightarrow> r < next_ref s) \<and>
     (\<forall>rid r. rooms s rid = Some r \<longrightarrow> r < next_ref s) \<and>
     (\<forall>r. next_ref s \<le> r \<longrightarrow> state (heap s r) = [])"

definition strangers_ok :: "server \<Rightarrow> bool" where
  "strangers_ok s \<longleftrightarrow>
     (\<forall>c. sessions s c = None \<and> finished s c = None \<longrightarrow>
          sent (net s) c = [] \<and> (\<forall>r. c |\<notin>| connections (heap s r)))"

definition registry_ok :: "server \<Rightarrow> bool" where
  "registry_ok s \<longleftrightarrow>
     (\<forall>rid r. rooms s rid = Some r \<longrightarrow> r < next_ref s \<and> room_id (heap s r) = rid) \<and>
     (\<forall>c rid r. sessions s c = Some (rid, r) \<longrightarrow> r < next_ref s \<and> room_id (heap s r) = rid) \<and>
     (\<forall>r. connections (heap s r) \<noteq> {||} \<longrightarrow>
          r < next_ref s \<and> rooms s (room_id (heap s r)) = Some r)"

fun send_fails :: "event \<Rightarrow> bool" where
  "send_fails (SendFails c e) = True"
| "send_fails ev = False"

definition calm :: "server \<Rightarrow> bool" where
  "calm s \<longleftrightarrow>
     failing (net s) = Map.empty \<and>
     (\<forall>c rid r. sessions s c = Some (rid, r) \<longrightarrow> c |\<in>| connections (heap s r)) \<and>
     (\<forall>rid r. rooms s rid = Some r \<longrightarrow> connections (heap s r) \<noteq> {||}) \<and>
     (\<forall>c res. finished s c = Some res \<longrightarrow> res = Returns ())"

subsection \<open>Example states and runs\<close>

text \<open>An identifier of 251 bytes: its file name has 256.\<close>

definition long_id :: string where
  "long_id = replicate 251 CHR ''a''"

text \<open>\<open>n\<close> arrays, one inside the other, around null.\<close>

fun nested :: "nat \<Rightarrow> json" where
  "nested 0 = JNull"
| "nested (Suc n) = JArr [nested n]"

text \<open>A transport on which nothing fails and nothing has been sent, and a room of three.\<close>

definition quiet :: transport where
  "quiet = \<lparr>failing = Map.empty, sent = (\<lambda>c. [])\<rparr>"

definition room_of_three :: DocumentRoom where
  "room_of_three =
     \<lparr>room_id = ''doc1'', connections = {|1, 2, 3|}, state = [0xAA], last_updated = 5\<rparr>"

text \<open>
  Two clients join a room and each sends one update; one client sends an empty update;
  a run cut in two, to compare the state log before and after.
\<close>

definition scenario_A :: "event list" where
  "scenario_A =
     [Connect 1 ''doc1'' 0, Connect 2 ''doc1'' 1, Receive 1 [0xAA] 2, Receive 2 [0xBB] 3]"

definition empty_update :: "event list" where
  "empty_update = [Connect 1 ''doc1'' 0, Receive 1 [] 1]"

definition first_update :: "event list" where
  "first_update = [Connect 1 ''doc1'' 0, Receive 1 [0xAA] 1]"

definition later_events :: "event list" where
  "later_events =
     [Connect 2 ''doc1'' 2, Receive 2 [0xBB] 3, ReceiveRaises 1 WebSocketDisconnect]"

text \<open>
  The sending side of connection 2 breaks, and the next update of connection 1 fails to
  reach it. In the second run the same happens to connection 1 on the next update of
  connection 2, and then both clients close.
\<close>

definition dropped_peer :: "event list" where
  "dropped_peer =
     [Connect 1 ''doc1'' 0, Connect 2 ''doc1'' 1, SendFails 2 RuntimeError, Receive 1 [0xAA] 2]"

definition both_dropped :: "event list" where
  "both_dropped =
     [Connect 1 ''doc1'' 0, Connect 2 ''doc1'' 1,
      SendFails 2 RuntimeError, Receive 1 [0xAA] 2,
      SendFails 1 RuntimeError, Receive 2 [0xBB] 3,
      ReceiveRaises 1 WebSocketDisconnect, ReceiveRaises 2 WebSocketDisconnect]"

section \<open>Properties of broadcast\<close>

subsection \<open>An undisturbed call\<close>

lemma for_in_set_undisturbed:
  "distinct xs \<Longrightarrow> set xs \<subseteq> fset A \<Longrightarrow>
   for_in_set xs (fcard A) fst (broadcast_body message exclude undisturbed) (A, d, t) =
     (Returns (),
      (A, d |\<union>| ffilter (\<lambda>c. Some c \<noteq> exclude \<and> failing t c \<noteq> None) (fset_of_list xs),
       t\<lparr>sent := (\<lambda>c. if c \<in> set xs \<and> Some c \<noteq> exclude
                        then sent t c @ [(message, failing t c = None)] else sent t c)\<rparr>))"
proof (induction xs arbitrary: d t)
  case Nil
  show ?case by auto
next
  case (Cons x xs)
  then show ?case
    by (auto simp: broadcast_body_def try_except_def send_bytes_def undisturbed_def fun_eq_iff
             split: option.splits intro!: transport.equality)
qed

lemma distinct_sorted_list_of_fset: "distinct (sorted_list_of_fset S)"
  by (simp add: sorted_list_of_fset.rep_eq)

lemma ffilter_fempty: "ffilter P {||} = {||}"
  by auto

lemma ffilter_finsert:
  "ffilter P (finsert x A) = (if P x then finsert x (ffilter P A) else ffilter P A)"
  by auto

lemma broadcast_loop_eq:
  "distinct xs \<Longrightarrow> set xs = fset A \<Longrightarrow>
   broadcast_loop xs message exclude undisturbed A t =
     (Returns (),
      (A, ffilter (\<lambda>c. Some c \<noteq> exclude \<and> failing t c \<noteq> None) A,
       t\<lparr>sent := (\<lambda>c. if c |\<in>| A \<and> Some c \<noteq> exclude
                        then sent t c @ [(message, failing t c = None)] else sent t c)\<rparr>))"
  by (simp add: broadcast_loop_def for_in_set_undisturbed fset_of_list.abs_eq fset_inverse)

text \<open>The order in which the loop visits the members does not matter.\<close>

lemma broadcast_loop_any_order:
  "distinct xs \<Longrightarrow> distinct ys \<Longrightarrow> set xs = fset A \<Longrightarrow> set ys = fset A \<Longrightarrow>
   broadcast_loop xs message exclude undisturbed A t =
   broadcast_loop ys message exclude undisturbed A t"
  by (simp add: broadcast_loop_eq)

text \<open>
  What an undisturbed call of broadcast does: it returns normally; the room loses the
  members other than \<open>exclude\<close> on which the send raises; every member other than
  \<open>exclude\<close> has one more call of \<open>send_bytes\<close> on record.
\<close>

lemma broadcast_eq:
  "broadcast message exclude undisturbed self t =
     (Returns (),
      (self\<lparr>connections :=
              connections self |-|
              ffilter (\<lambda>c. Some c \<noteq> exclude \<and> failing t c \<noteq> None) (connections self)\<rparr>,
       t\<lparr>sent := (\<lambda>c. if c |\<in>| connections self \<and> Some c \<noteq> exclude
                        then sent t c @ [(message, failing t c = None)] else sent t c)\<rparr>))"
  by (simp add: broadcast_def broadcast_loop_eq distinct_sorted_list_of_fset)

text \<open>
  Exclusion, isolation and frame of an undisturbed call: every member other than the
  excluded one is sent the payload exactly once and the excluded one is sent nothing; one
  failing recipient does not keep the others from being sent the payload, does not make
  the call raise, and is removed; the call changes the membership only, by the recipients
  on which the send raised.
\<close>

lemma undisturbed_broadcast_exclusion:
  assumes "m |\<in>| connections R"
  shows "(c |\<in>| connections R \<and> c \<noteq> m \<longrightarrow>
            sent (snd (snd (broadcast p (Some m) undisturbed R t))) c =
              sent t c @ [(p, failing t c = None)])
         \<and> sent (snd (snd (broadcast p (Some m) undisturbed R t))) m = sent t m"
  by (simp add: broadcast_eq)

lemma undisturbed_broadcast_isolation:
  assumes "f |\<in>| connections R" and "Some f \<noteq> exclude" and "failing t f = Some e"
    and "\<forall>c. c |\<in>| connections R \<and> Some c \<noteq> exclude \<and> c \<noteq> f \<longrightarrow> failing t c = None"
  shows "fst (broadcast p exclude undisturbed R t) = Returns ()
         \<and> (c |\<in>| connections R \<and> Some c \<noteq> exclude \<and> c \<noteq> f \<longrightarrow>
              sent (snd (snd (broadcast p exclude undisturbed R t))) c = sent t c @ [(p, True)])
         \<and> f |\<notin>| connections (fst (snd (broadcast p exclude undisturbed R t)))"
  using assms by (simp add: broadcast_eq)

lemma undisturbed_broadcast_frame:
  "state (fst (snd (broadcast p exclude undisturbed R t))) = state R
   \<and> last_updated (fst (snd (broadcast p exclude undisturbed R t))) = last_updated R
   \<and> room_id (fst (snd (broadcast p exclude undisturbed R t))) = room_id R
   \<and> (c |\<in>| connections (fst (snd (broadcast p exclude undisturbed R t))) \<longleftrightarrow>
        c |\<in>| connections R \<and>
        sent (snd (snd (broadcast p exclude undisturbed R t))) c \<noteq> sent t c @ [(p, False)])"
  by (auto simp add: broadcast_eq)

subsection \<open>A call during which a client joins\<close>

lemma for_in_set_changed:
  "fcard (the_set s) \<noteq> used \<Longrightarrow> for_in_set xs used the_set body s = (Raises RuntimeError, s)"
  by (cases xs) simp_all

lemma for_in_set_join:
  assumes "set xs \<subseteq> fset A" and "w |\<notin>| A" and "\<exists>c\<in>set xs. Some c \<noteq> exclude"
  shows "\<exists>c\<in>set xs. Some c \<noteq> exclude \<and>
           for_in_set xs (fcard A) fst (broadcast_body message exclude (joins w)) (A, d, t) =
             (Raises RuntimeError,
              (finsert w A,
               (if failing t c = None then d else finsert c d),
               t\<lparr>sent := (sent t)(c := sent t c @ [(message, failing t c = None)])\<rparr>))"
  using assms
proof (induction xs)
  case Nil
  then show ?case by simp
next
  case (Cons x xs)
  show ?case
  proof (cases "Some x = exclude")
    case True
    then have ex: "\<exists>c\<in>set xs. Some c \<noteq> exclude"
      using Cons.prems(3) by auto
    have sub: "set xs \<subseteq> fset A"
      using Cons.prems(1) by auto
    from Cons.IH [OF sub Cons.prems(2) ex]
    obtain c where c: "c \<in> set xs" "Some c \<noteq> exclude"
      and eq: "for_in_set xs (fcard A) fst (broadcast_body message exclude (joins w)) (A, d, t) =
         (Raises RuntimeError,
          (finsert w A,
           (if failing t c = None then d else finsert c d),
           t\<lparr>sent := (sent t)(c := sent t c @ [(message, failing t c = None)])\<rparr>))"
      by blast
    have "for_in_set (x # xs) (fcard A) fst (broadcast_body message exclude (joins w)) (A, d, t) =
          for_in_set xs (fcard A) fst (broadcast_body message exclude (joins w)) (A, d, t)"
      using True by (simp add: broadcast_body_def)
    from trans [OF this eq] show ?thesis
      using c by (intro bexI [of _ c] conjI) (simp_all add: fun_upd_def del: for_in_set.simps)
  next
    case False
    have changed: "fcard (finsert w A) \<noteq> fcard A"
      using Cons.prems(2) by (simp add: fcard_finsert_disjoint)
    have "for_in_set (x # xs) (fcard A) fst (broadcast_body message exclude (joins w)) (A, d, t) =
            (Raises RuntimeError,
             (finsert w A,
              (if failing t x = None then d else finsert x d),
              t\<lparr>sent := (sent t)(x := sent t x @ [(message, failing t x = None)])\<rparr>))"
      using False Cons.prems(1) changed
      by (auto simp add: broadcast_body_def try_except_def send_bytes_def joins_def
            for_in_set_changed split: option.splits)
    then show ?thesis
      using False by (intro bexI [of _ x] conjI) (simp_all add: fun_upd_def del: for_in_set.simps)
  qed
qed

text \<open>
  Whatever the order of the iteration: when a client joins while the first send of a
  broadcast is suspended, the broadcast raises RuntimeError after that one send.
\<close>

lemma join_during_first_send:
  assumes "set order = fset members" and "w |\<notin>| members"
    and "c |\<in>| members" and "Some c \<noteq> exclude"
  shows "\<exists>c'. c' |\<in>| members \<and> Some c' \<noteq> exclude \<and>
           broadcast_loop order message exclude (joins w) members t =
             (Raises RuntimeError,
              (finsert w members,
               (if failing t c' = None then {||} else {|c'|}),
               t\<lparr>sent := (sent t)(c' := sent t c' @ [(message, failing t c' = None)])\<rparr>))"
proof -
  have ex: "\<exists>c\<in>set order. Some c \<noteq> exclude"
    using assms(1,3,4) by auto
  have sub: "set order \<subseteq> fset members"
    using assms(1) by simp
  from for_in_set_join [OF sub assms(2) ex, of message "{||}" t]
  obtain c' where c': "c' \<in> set order" "Some c' \<noteq> exclude"
    and eq: "for_in_set order (fcard members) fst (broadcast_body message exclude (joins w))
               (members, {||}, t) =
             (Raises RuntimeError,
              (finsert w members,
               (if failing t c' = None then {||} else finsert c' {||}),
               t\<lparr>sent := (sent t)(c' := sent t c' @ [(message, failing t c' = None)])\<rparr>))"
    by blast
  have "c' |\<in>| members"
    using c'(1) assms(1) by simp
  then show ?thesis
    using c'(2) eq unfolding broadcast_loop_def by (intro exI [of _ c'] conjI)
qed

text \<open>Rules that evaluate a call of broadcast on a given room.\<close>

lemma sorted_list_of_fset_fempty: "sorted_list_of_fset {||} = []"
  by (simp add: sorted_list_of_fset.rep_eq)

lemma sorted_list_of_fset_finsert:
  "sorted_list_of_fset (finsert x S) = insort x (sorted_list_of_fset (S |-| {|x|}))"
  by (simp add: sorted_list_of_fset.rep_eq)

lemmas broadcast_exec =
  broadcast_def broadcast_loop_def broadcast_body_def try_except_def send_bytes_def joins_def
  fcard_finsert_if fcard_fempty sorted_list_of_fset_fempty sorted_list_of_fset_finsert
  finsert_fminus_if

text \<open>
  C1 (exclusion). Connection 1 broadcasts in a room of three, and connection 4 joins
  while the send to connection 2 is suspended. The \<open>for\<close> statement finds the set
  changed and raises RuntimeError: connection 3, a member other than the sender, is never
  sent the payload.
\<close>

theorem C1_join_during_broadcast:
  "2 |\<in>| connections room_of_three \<and> 3 |\<in>| connections room_of_three
   \<and> fst (broadcast [0xBB] (Some 1) (joins 4) room_of_three quiet) = Raises RuntimeError
   \<and> sent (snd (snd (broadcast [0xBB] (Some 1) (joins 4) room_of_three quiet))) 2
       = [([0xBB], True)]
   \<and> sent (snd (snd (broadcast [0xBB] (Some 1) (joins 4) room_of_three quiet))) 3 = []"
  by (simp add: room_of_three_def quiet_def broadcast_exec)

text \<open>
  C3 (isolation under failure). In the room of three the send to connection 2 raises, the
  send to connection 3 would not, and connection 4 joins while the send to connection 2
  is suspended. The failure of the send is caught, but the \<open>for\<close> statement then raises
  RuntimeError: the call raises to its caller, connection 3 is not sent the payload, and
  connection 2 is still a member when the call has ended.
\<close>

theorem C3_join_during_failing_send:
  "3 \<le> fcard (connections room_of_three)
   \<and> failing (quiet\<lparr>failing := [2 \<mapsto> RuntimeError]\<rparr>) 2 = Some RuntimeError
   \<and> failing (quiet\<lparr>failing := [2 \<mapsto> RuntimeError]\<rparr>) 3 = None
   \<and> fst (broadcast [0xBB] (Some 1) (joins 4) room_of_three
            (quiet\<lparr>failing := [2 \<mapsto> RuntimeError]\<rparr>)) = Raises RuntimeError
   \<and> sent (snd (snd (broadcast [0xBB] (Some 1) (joins 4) room_of_three
                        (quiet\<lparr>failing := [2 \<mapsto> RuntimeError]\<rparr>)))) 3 = []
   \<and> 2 |\<in>| connections (fst (snd (broadcast [0xBB] (Some 1) (joins 4) room_of_three
                                      (quiet\<lparr>failing := [2 \<mapsto> RuntimeError]\<rparr>))))"
  by (simp add: room_of_three_def quiet_def broadcast_exec)

text \<open>
  C10 (frame of broadcast). Connection 3 broadcasts in the room of three, the send to
  connection 1 raises, and connection 9 joins while that send is suspended. RuntimeError
  leaves the loop, the line \<open>self.connections -= disconnected\<close> is skipped, and
  connection 1, on which the send of this call raised, is still a member.
\<close>

theorem C10_failed_recipient_stays_member:
  "sent (snd (snd (broadcast [0xCC] (Some 3) (joins 9) room_of_three
                     (quiet\<lparr>failing := [1 \<mapsto> RuntimeError]\<rparr>)))) 1 = [([0xCC], False)]
   \<and> fst (broadcast [0xCC] (Some 3) (joins 9) room_of_three
            (quiet\<lparr>failing := [1 \<mapsto> RuntimeError]\<rparr>)) = Raises RuntimeError
   \<and> 1 |\<in>| connections (fst (snd (broadcast [0xCC] (Some 3) (joins 9) room_of_three
                                      (quiet\<lparr>failing := [1 \<mapsto> RuntimeError]\<rparr>))))"
  by (simp add: room_of_three_def quiet_def broadcast_exec)

section \<open>What the handlers change\<close>

lemma finally_frame [simp]:
  "state (heap (snd (websocket_sync_finally w rid room s)) r) = state (heap s r)"
  "next_ref (snd (websocket_sync_finally w rid room s)) = next_ref s"
  "net (snd (websocket_sync_finally w rid room s)) = net s"
  "sessions (snd (websocket_sync_finally w rid room s)) = sessions s"
  "finished (snd (websocket_sync_finally w rid room s)) = finished s"
  by (simp_all add: websocket_sync_finally_def update_room_def Let_def)

lemma finally_rooms:
  "rooms (snd (websocket_sync_finally w rid room s)) rid' = Some r \<Longrightarrow> rooms s rid' = Some r"
  by (simp add: websocket_sync_finally_def update_room_def Let_def split: if_splits)

lemma finally_connections:
  "c |\<in>| connections (heap (snd (websocket_sync_finally w rid room s)) r) \<Longrightarrow>
   c |\<in>| connections (heap s r)"
  by (auto simp add: websocket_sync_finally_def update_room_def Let_def split: if_splits)

lemma leave_frame [simp]:
  "state (heap (websocket_sync_leave w rid room e s) r) = state (heap s r)"
  "next_ref (websocket_sync_leave w rid room e s) = next_ref s"
  "net (websocket_sync_leave w rid room e s) = net s"
  "sessions (websocket_sync_leave w rid room e s) = (sessions s)(w := None)"
  by (simp_all add: websocket_sync_leave_def split_beta)

lemma leave_finished [simp]:
  "finished (websocket_sync_leave w rid room e s) =
     (finished s)(w \<mapsto> fst (websocket_sync_finally w rid room s))"
  by (simp add: websocket_sync_leave_def split_beta)

lemma leave_rooms:
  "rooms (websocket_sync_leave w rid room e s) rid' = Some r \<Longrightarrow> rooms s rid' = Some r"
  by (auto simp add: websocket_sync_leave_def split_beta dest: finally_rooms)

lemma leave_connections:
  "c |\<in>| connections (heap (websocket_sync_leave w rid room e s) r) \<Longrightarrow>
   c |\<in>| connections (heap s r)"
  by (auto simp add: websocket_sync_leave_def split_beta dest: finally_connections)

text \<open>The three ways in which the \<open>finally\<close> block of a handler can go.\<close>

lemma leave_absent:
  "w |\<notin>| connections (heap s room) \<Longrightarrow>
   websocket_sync_leave w rid room e s =
     s\<lparr>sessions := (sessions s)(w := None), finished := (finished s)(w \<mapsto> Raises KeyError)\<rparr>"
  by (simp add: websocket_sync_leave_def websocket_sync_finally_def)

lemma leave_stays:
  "w |\<in>| connections (heap s room) \<Longrightarrow> connections (heap s room) |-| {|w|} \<noteq> {||} \<Longrightarrow>
   websocket_sync_leave w rid room e s =
     s\<lparr>heap := (heap s)(room := (heap s room)\<lparr>connections := connections (heap s room) |-| {|w|}\<rparr>),
       sessions := (sessions s)(w := None), finished := (finished s)(w \<mapsto> Returns ())\<rparr>"
  by (simp add: websocket_sync_leave_def websocket_sync_finally_def update_room_def Let_def)

lemma leave_last:
  "w |\<in>| connections (heap s room) \<Longrightarrow> connections (heap s room) |-| {|w|} = {||} \<Longrightarrow>
   rooms s rid = Some r \<Longrightarrow>
   websocket_sync_leave w rid room e s =
     s\<lparr>heap := (heap s)(room := (heap s room)\<lparr>connections := {||}\<rparr>),
       rooms := (rooms s)(rid := None),
       sessions := (sessions s)(w := None), finished := (finished s)(w \<mapsto> Returns ())\<rparr>"
  by (simp add: websocket_sync_leave_def websocket_sync_finally_def update_room_def Let_def
        del: fminus_eq_fempty_iff)

lemma loop_body_frame [simp]:
  "state (heap (websocket_sync_loop_body w rid room data now s) r) =
     (if r = room then state (heap s r) @ data else state (heap s r))"
  "next_ref (websocket_sync_loop_body w rid room data now s) = next_ref s"
  "sessions (websocket_sync_loop_body w rid room data now s) = sessions s"
  "rooms (websocket_sync_loop_body w rid room data now s) = rooms s"
  "finished (websocket_sync_loop_body w rid room data now s) = finished s"
  by (simp_all add: websocket_sync_loop_body_def broadcast_eq update_room_def Let_def)

lemma loop_body_failing [simp]:
  "failing (net (websocket_sync_loop_body w rid room data now s)) = failing (net s)"
  by (simp add: websocket_sync_loop_body_def broadcast_eq update_room_def Let_def)

lemma loop_body_connections:
  "c |\<in>| connections (heap (websocket_sync_loop_body w rid room data now s) r) \<Longrightarrow>
   c |\<in>| connections (heap s r)"
  by (auto simp add: websocket_sync_loop_body_def broadcast_eq update_room_def Let_def
        split: if_splits)

lemma loop_body_connections_calm:
  "failing (net s) = Map.empty \<Longrightarrow>
   connections (heap (websocket_sync_loop_body w rid room data now s) r) = connections (heap s r)"
  by (simp add: websocket_sync_loop_body_def broadcast_eq update_room_def Let_def ffilter_fempty)

lemma loop_body_sent:
  "sent (net (websocket_sync_loop_body w rid room data now s)) c =
     (if c |\<in>| connections (heap s room) \<and> c \<noteq> w
      then sent (net s) c @ [(data, failing (net s) c = None)] else sent (net s) c)"
  by (auto simp add: websocket_sync_loop_body_def broadcast_eq update_room_def Let_def)

lemma enter_frame [simp]:
  "state (heap (websocket_sync_enter w rid now s) r) =
     (if rooms s rid = None \<and> r = next_ref s then [] else state (heap s r))"
  "next_ref (websocket_sync_enter w rid now s) =
     (if rooms s rid = None then Suc (next_ref s) else next_ref s)"
  by (simp_all add: websocket_sync_enter_def get_or_create_room_def update_room_def Let_def
        DocumentRoom_init_def send_bytes_def split: option.splits prod.splits result.splits)

lemma enter_sessions:
  "sessions (websocket_sync_enter w rid now s) c = Some (rid', r) \<Longrightarrow>
   sessions s c = Some (rid', r) \<or> rooms s rid = Some r \<or> (rooms s rid = None \<and> r = next_ref s)"
  by (auto simp add: websocket_sync_enter_def get_or_create_room_def update_room_def Let_def
        send_bytes_def
        split: option.splits prod.splits result.splits if_splits)

lemma enter_rooms:
  "rooms (websocket_sync_enter w rid now s) rid' = Some r \<Longrightarrow>
   rooms s rid' = Some r \<or> (rooms s rid = None \<and> r = next_ref s)"
  by (auto simp add: websocket_sync_enter_def get_or_create_room_def update_room_def Let_def
        send_bytes_def
        split: option.splits prod.splits result.splits if_splits dest!: leave_rooms)

lemma enter_connections:
  "c |\<in>| connections (heap (websocket_sync_enter w rid now s) r) \<Longrightarrow>
   c = w \<or> c |\<in>| connections (heap s r)"
  by (auto simp add: websocket_sync_enter_def get_or_create_room_def update_room_def Let_def
        send_bytes_def DocumentRoom_init_def
        split: option.splits prod.splits result.splits if_splits dest!: leave_connections)

lemma enter_sent:
  "sent (net (websocket_sync_enter w rid now s)) c =
     (case rooms s rid of
        None \<Rightarrow> sent (net s) c
      | Some r \<Rightarrow>
          if c = w \<and> state (heap s r) \<noteq> []
          then sent (net s) c @ [(state (heap s r), failing (net s) c = None)]
          else sent (net s) c)"
  by (auto simp add: websocket_sync_enter_def get_or_create_room_def update_room_def Let_def
        send_bytes_def DocumentRoom_init_def
        split: option.splits prod.splits result.splits if_splits)

lemma enter_known:
  "sessions (websocket_sync_enter w rid now s) w \<noteq> None \<or>
   finished (websocket_sync_enter w rid now s) w \<noteq> None"
  by (auto simp add: websocket_sync_enter_def get_or_create_room_def update_room_def Let_def
        send_bytes_def
        split: option.splits prod.splits result.splits if_splits)

lemma enter_others:
  "c \<noteq> w \<Longrightarrow> sessions (websocket_sync_enter w rid now s) c = sessions s c"
  "c \<noteq> w \<Longrightarrow> finished (websocket_sync_enter w rid now s) c = finished s c"
  by (auto simp add: websocket_sync_enter_def get_or_create_room_def update_room_def Let_def
        send_bytes_def
        split: option.splits prod.splits result.splits if_splits)

lemma enter_calm:
  assumes "failing (net s) = Map.empty"
  shows "failing (net (websocket_sync_enter w rid now s)) = Map.empty"
    and "sessions (websocket_sync_enter w rid now s) =
           (sessions s)(w \<mapsto> (rid, fst (get_or_create_room rid now s)))"
    and "finished (websocket_sync_enter w rid now s) = finished s"
    and "rooms (websocket_sync_enter w rid now s) = (rooms s)(rid \<mapsto> fst (get_or_create_room rid now s))"
    and "connections (heap (websocket_sync_enter w rid now s) r) =
           (if r = fst (get_or_create_room rid now s)
            then finsert w (case rooms s rid of None \<Rightarrow> {||} | Some r' \<Rightarrow> connections (heap s r'))
            else connections (heap s r))"
  using assms
  by (auto simp add: websocket_sync_enter_def get_or_create_room_def update_room_def Let_def
        send_bytes_def DocumentRoom_init_def split: option.splits)

text \<open>Rules that evaluate a run on given events.\<close>

lemmas exec_defs =
  ffilter_fempty ffilter_finsert
  initial_server_def websocket_sync_enter_def websocket_sync_loop_body_def
  websocket_sync_leave_def websocket_sync_finally_def get_or_create_room_def update_room_def
  DocumentRoom_init_def send_bytes_def broadcast_eq Let_def

section \<open>The state log\<close>

lemma step_next_ref: "next_ref s \<le> next_ref (step e s)"
  by (cases e) (auto split: option.splits)

lemma step_state:
  "r < next_ref s \<Longrightarrow>
   state (heap (step e s) r) = state (heap s r) @ concat (accepted_by r [e] s)"
  by (cases e) (auto split: option.splits)

lemma run_state_prefix:
  "r < next_ref s \<Longrightarrow> prefix (state (heap s r)) (state (heap (run evs s) r))"
proof (induction evs arbitrary: s)
  case Nil
  show ?case by simp
next
  case (Cons e evs)
  have "r < next_ref (step e s)"
    using Cons.prems step_next_ref [of s e] by simp
  then have "prefix (state (heap (step e s) r)) (state (heap (run evs (step e s)) r))"
    by (rule Cons.IH)
  moreover have "prefix (state (heap s r)) (state (heap (step e s) r))"
    by (simp add: step_state [OF Cons.prems])
  ultimately show ?case
    by (auto intro: prefix_order.trans)
qed

text \<open>
  C7 (append only). For a room object that exists, whatever the handlers do afterwards
  (clients join, updates are received and broadcast, sends fail, clients leave), the state
  log it had stays a prefix of the state log it has.
\<close>

theorem C7_state_log_append_only:
  assumes "r < next_ref s"
  shows "prefix (state (heap s r)) (state (heap (run evs s) r))"
  using assms by (rule run_state_prefix)

theorem C7_state_log_append_only_witness:
  "0 < next_ref (run first_update initial_server)
   \<and> state (heap (run first_update initial_server) 0) = [0xAA]
   \<and> state (heap (run later_events (run first_update initial_server)) 0) = [0xAA, 0xBB]
   \<and> prefix (state (heap (run first_update initial_server) 0))
        (state (heap (run later_events (run first_update initial_server)) 0))"
proof -
  have live: "0 < next_ref (run first_update initial_server)"
    by (simp add: first_update_def exec_defs)
  have before: "state (heap (run first_update initial_server) 0) = [0xAA]"
    by (simp add: first_update_def exec_defs)
  have after: "state (heap (run later_events (run first_update initial_server)) 0) = [0xAA, 0xBB]"
    by (simp add: first_update_def later_events_def exec_defs)
  show ?thesis
    using live before after C7_state_log_append_only [OF live, of later_events]
    by simp
qed

lemma wf_step: "wf_server s \<Longrightarrow> wf_server (step e s)"
proof (cases e)
  case (Connect c rid now)
  assume wf: "wf_server s"
  show ?thesis
    unfolding wf_server_def
  proof (intro conjI allI impI)
    fix c' rid' r
    assume "sessions (step e s) c' = Some (rid', r)"
    then show "r < next_ref (step e s)"
      using wf Connect
      by (auto simp add: wf_server_def dest!: enter_sessions split: if_splits) fastforce+
  next
    fix rid' r
    assume "rooms (step e s) rid' = Some r"
    then show "r < next_ref (step e s)"
      using wf Connect
      by (auto simp add: wf_server_def dest!: enter_rooms split: if_splits) fastforce+
  next
    fix r
    assume "next_ref (step e s) \<le> r"
    then show "state (heap (step e s) r) = []"
      using wf Connect
      by (auto simp add: wf_server_def split: if_splits)
  qed
next
  case (Receive c data now)
  assume wf: "wf_server s"
  then show ?thesis
    using Receive by (fastforce simp add: wf_server_def split: option.splits)
next
  case (ReceiveRaises c ex)
  assume wf: "wf_server s"
  then show ?thesis
    using ReceiveRaises
    by (auto simp add: wf_server_def split: option.splits if_splits dest!: leave_rooms)
next
  case (SendFails c ex)
  assume wf: "wf_server s"
  then show ?thesis
    using SendFails by (simp add: wf_server_def)
qed

lemma wf_initial: "wf_server initial_server"
  by (simp add: wf_server_def initial_server_def DocumentRoom_init_def)

lemma step_state_wf:
  "wf_server s \<Longrightarrow>
   state (heap (step e s) r) = state (heap s r) @ concat (accepted_by r [e] s)"
  by (cases e) (auto simp add: wf_server_def split: option.splits)

lemma accepted_by_Cons:
  "accepted_by r (e # es) s = accepted_by r [e] s @ accepted_by r es (step e s)"
  by (cases e) (auto split: option.splits)

lemma run_state:
  "wf_server s \<Longrightarrow>
   state (heap (run evs s) r) = state (heap s r) @ concat (accepted_by r evs s)"
proof (induction evs arbitrary: s)
  case Nil
  show ?case by simp
next
  case (Cons e evs)
  have "state (heap (run evs (step e s)) r) =
          state (heap (step e s) r) @ concat (accepted_by r evs (step e s))"
    using Cons.prems by (intro Cons.IH wf_step)
  then show ?case
    using Cons.prems
    by (simp add: step_state_wf accepted_by_Cons [of r e evs s] del: accepted_by.simps)
qed

text \<open>The state log of a room is the concatenation of the updates the room accepted.\<close>

lemma run_state_initial:
  "state (heap (run evs initial_server) r) = concat (accepted_by r evs initial_server)"
  using run_state [OF wf_initial, of evs r]
  by (simp add: initial_server_def DocumentRoom_init_def)

lemma strangers_step: "strangers_ok s \<Longrightarrow> strangers_ok (step e s)"
proof (cases e)
  case (Connect w rid now)
  assume ok: "strangers_ok s"
  show ?thesis
  proof (cases "sessions s w \<noteq> None \<or> finished s w \<noteq> None")
    case True
    then show ?thesis using ok Connect by auto
  next
    case False
    show ?thesis
      unfolding strangers_ok_def
    proof (intro allI impI)
      fix c
      assume new: "sessions (step e s) c = None \<and> finished (step e s) c = None"
      have "c \<noteq> w"
        using new False Connect enter_known [of w rid now s] by auto
      then have "sessions s c = None \<and> finished s c = None"
        using new False Connect by (simp add: enter_others)
      then have "sent (net s) c = [] \<and> (\<forall>r. c |\<notin>| connections (heap s r))"
        using ok by (simp add: strangers_ok_def)
      then show "sent (net (step e s)) c = [] \<and> (\<forall>r. c |\<notin>| connections (heap (step e s) r))"
        using \<open>c \<noteq> w\<close> False Connect
        by (auto simp add: enter_sent split: option.splits dest!: enter_connections)
    qed
  qed
next
  case (Receive w data now)
  assume ok: "strangers_ok s"
  then show ?thesis
    using Receive
    by (auto simp add: strangers_ok_def loop_body_sent split: option.splits
          dest!: loop_body_connections)
next
  case (ReceiveRaises w ex)
  assume ok: "strangers_ok s"
  then show ?thesis
    using ReceiveRaises
    by (auto simp add: strangers_ok_def split: option.splits if_splits dest!: leave_connections)
next
  case (SendFails w ex)
  assume ok: "strangers_ok s"
  then show ?thesis
    using SendFails by (simp add: strangers_ok_def)
qed

lemma strangers_run: "strangers_ok s \<Longrightarrow> strangers_ok (run evs s)"
  by (induction evs arbitrary: s) (simp_all add: strangers_step)

lemma strangers_initial: "strangers_ok initial_server"
  by (simp add: strangers_ok_def initial_server_def DocumentRoom_init_def)

lemma step_sent_prefix: "prefix (sent (net s) c) (sent (net (step e s)) c)"
  by (cases e) (auto simp add: loop_body_sent enter_sent split: option.splits)

lemma run_sent_prefix: "prefix (sent (net s) c) (sent (net (run evs s)) c)"
proof (induction evs arbitrary: s)
  case Nil
  show ?case by simp
next
  case (Cons e evs)
  have "prefix (sent (net s) c) (sent (net (step e s)) c)"
    by (rule step_sent_prefix)
  also have "prefix (sent (net (step e s)) c) (sent (net (run evs (step e s))) c)"
    by (rule Cons.IH)
  finally show ?case by simp
qed

text \<open>
  C2 (replay on join), as the code has it. Let a new connection \<open>c\<close> join the room
  registered under \<open>rid\<close> after a run of the server. When the concatenation of the updates
  that the room accepted, in the order of acceptance, is not empty, \<open>c\<close> is sent that
  concatenation as one message; when it is empty (no update yet, or only empty ones), or
  when no room is registered under \<open>rid\<close>, \<open>c\<close> is sent nothing. Whatever \<open>c\<close> is sent
  later comes after it.
\<close>

theorem C2_replay_on_join:
  assumes "s = run evs initial_server"
    and "sessions s c = None" and "finished s c = None"
    and "s' = step (Connect c rid now) s"
  shows "sent (net s') c =
           (case rooms s rid of
              None \<Rightarrow> []
            | Some r \<Rightarrow>
                if concat (accepted_by r evs initial_server) = [] then []
                else [(concat (accepted_by r evs initial_server), failing (net s) c = None)])
         \<and> prefix (sent (net s') c) (sent (net (run evs' s')) c)"
proof -
  have "strangers_ok s"
    using assms(1) by (simp add: strangers_run strangers_initial)
  then have "sent (net s) c = []"
    using assms(2,3) by (simp add: strangers_ok_def)
  then have "sent (net s') c =
           (case rooms s rid of
              None \<Rightarrow> []
            | Some r \<Rightarrow>
                if concat (accepted_by r evs initial_server) = [] then []
                else [(concat (accepted_by r evs initial_server), failing (net s) c = None)])"
    using assms by (simp add: enter_sent run_state_initial split: option.splits)
  moreover have "prefix (sent (net s') c) (sent (net (run evs' s')) c)"
    by (rule run_sent_prefix)
  ultimately show ?thesis
    by (rule conjI)
qed

theorem C2_replay_on_join_witness:
  "sessions (run scenario_A initial_server) 3 = None
   \<and> finished (run scenario_A initial_server) 3 = None
   \<and> rooms (run scenario_A initial_server) ''doc1'' = Some 0
   \<and> accepted_by 0 scenario_A initial_server = [[0xAA], [0xBB]]
   \<and> sent (net (step (Connect 3 ''doc1'' 4) (run scenario_A initial_server))) 3
       = [([0xAA, 0xBB], True)]
   \<and> prefix (sent (net (step (Connect 3 ''doc1'' 4) (run scenario_A initial_server))) 3)
        (sent (net (run [Receive 1 [0xCC] 5]
                      (step (Connect 3 ''doc1'' 4) (run scenario_A initial_server)))) 3)"
proof -
  have new: "sessions (run scenario_A initial_server) 3 = None"
    "finished (run scenario_A initial_server) 3 = None"
    by (simp_all add: scenario_A_def exec_defs)
  have room: "rooms (run scenario_A initial_server) ''doc1'' = Some 0"
    by (simp add: scenario_A_def exec_defs)
  have acc: "accepted_by 0 scenario_A initial_server = [[0xAA], [0xBB]]"
    by (simp add: scenario_A_def exec_defs)
  have ok: "failing (net (run scenario_A initial_server)) 3 = None"
    by (simp add: scenario_A_def exec_defs)
  note join = C2_replay_on_join [OF refl new refl, of "''doc1''" 4 "[Receive 1 [0xCC] 5]"]
  have snapshot:
    "sent (net (step (Connect 3 ''doc1'' 4) (run scenario_A initial_server))) 3
       = [([0xAA, 0xBB], True)]"
    using join room acc ok by (simp del: step.simps run.simps)
  show ?thesis
    using new room acc snapshot join [THEN conjunct2]
    by (intro conjI)
qed

text \<open>
  C2 as stated fails on an empty update: the room has accepted one update, the empty
  message, and the connection that joins next is sent no snapshot.
\<close>

theorem C2_empty_update_counterexample:
  "accepted_by 0 empty_update initial_server = [[]]
   \<and> rooms (run empty_update initial_server) ''doc1'' = Some 0
   \<and> sessions (run empty_update initial_server) 2 = None
   \<and> finished (run empty_update initial_server) 2 = None
   \<and> sent (net (step (Connect 2 ''doc1'' 2) (run empty_update initial_server))) 2 = []"
  by (simp add: empty_update_def exec_defs)

section \<open>The registry\<close>

lemma wf_run: "wf_server s \<Longrightarrow> wf_server (run evs s)"
  by (induction evs arbitrary: s) (simp_all add: wf_step)

text \<open>
  C9 (get or create). In every state that the server reaches: when the identifier is
  registered, \<open>get_or_create_room\<close> returns the registered object and changes nothing.
  When it is not, the function returns a new object: its address is the next free one,
  no identifier is registered to it and no running handler holds it; it carries the
  identifier, has no member and an empty state log; it is registered under the identifier,
  the next free address moves on, and nothing else changes. A second call with the same
  identifier returns the same object and leaves the server as the first call left it,
  and a call with another identifier that is not registered returns another object.
\<close>

theorem C9_get_or_create_room:
  assumes "s = run evs initial_server"
  shows "(rooms s rid = Some r \<longrightarrow> get_or_create_room rid now s = (r, s))
   \<and> (rooms s rid = None \<longrightarrow>
        fst (get_or_create_room rid now s) = next_ref s
        \<and> (\<forall>rid'. rooms s rid' \<noteq> Some (next_ref s))
        \<and> (\<forall>c rid'. sessions s c \<noteq> Some (rid', next_ref s))
        \<and> snd (get_or_create_room rid now s) =
            s\<lparr>heap := (heap s)(next_ref s :=
                       \<lparr>room_id = rid, connections = {||}, state = [], last_updated = now\<rparr>),
              next_ref := Suc (next_ref s),
              rooms := (rooms s)(rid \<mapsto> next_ref s)\<rparr>)
   \<and> fst (get_or_create_room rid now' (snd (get_or_create_room rid now s))) =
        fst (get_or_create_room rid now s)
   \<and> snd (get_or_create_room rid now' (snd (get_or_create_room rid now s))) =
        snd (get_or_create_room rid now s)
   \<and> (rid' \<noteq> rid \<and> rooms s rid' = None \<longrightarrow>
        fst (get_or_create_room rid' now' (snd (get_or_create_room rid now s))) \<noteq>
        fst (get_or_create_room rid now s))"
proof -
  have wf: "wf_server s"
    using assms by (simp add: wf_run wf_initial)
  have registered: "rooms s rid' = Some r' \<Longrightarrow> r' < next_ref s" for rid' r'
    using wf unfolding wf_server_def by blast
  have held: "sessions s c = Some (rid', r') \<Longrightarrow> r' < next_ref s" for c rid' r'
    using wf unfolding wf_server_def by blast
  have new: "(\<forall>rid'. rooms s rid' \<noteq> Some (next_ref s))
             \<and> (\<forall>c rid'. sessions s c \<noteq> Some (rid', next_ref s))"
    using registered held by (metis less_irrefl)
  have other: "rid' \<noteq> rid \<and> rooms s rid' = None \<longrightarrow>
        fst (get_or_create_room rid' now' (snd (get_or_create_room rid now s))) \<noteq>
        fst (get_or_create_room rid now s)"
    using registered [of rid]
    by (auto simp add: get_or_create_room_def split: option.splits)
  show ?thesis
    using new other
    by (auto simp add: get_or_create_room_def DocumentRoom_init_def split: option.splits)
qed

theorem C9_get_or_create_room_witness:
  "rooms (run scenario_A initial_server) ''doc1'' = Some 0
   \<and> get_or_create_room ''doc1'' 7 (run scenario_A initial_server)
       = (0, run scenario_A initial_server)
   \<and> rooms (run scenario_A initial_server) ''doc2'' = None
   \<and> fst (get_or_create_room ''doc2'' 7 (run scenario_A initial_server)) = 1
   \<and> next_ref (snd (get_or_create_room ''doc2'' 7 (run scenario_A initial_server))) = 2
   \<and> fst (get_or_create_room ''doc2'' 8
            (snd (get_or_create_room ''doc2'' 7 (run scenario_A initial_server)))) = 1
   \<and> fst (get_or_create_room ''doc3'' 8
            (snd (get_or_create_room ''doc2'' 7 (run scenario_A initial_server)))) \<noteq> 1"
proof -
  have present: "rooms (run scenario_A initial_server) ''doc1'' = Some 0"
    and absent: "rooms (run scenario_A initial_server) ''doc2'' = None"
      "rooms (run scenario_A initial_server) ''doc3'' = None"
    and free: "next_ref (run scenario_A initial_server) = 1"
    by (simp_all add: scenario_A_def exec_defs)
  note here = C9_get_or_create_room [OF refl, of scenario_A]
  have old: "get_or_create_room ''doc1'' 7 (run scenario_A initial_server)
               = (0, run scenario_A initial_server)"
    using present here [of "''doc1''" 0 7 8 "''doc2''"] by blast
  have new: "fst (get_or_create_room ''doc2'' 7 (run scenario_A initial_server)) = 1"
    using absent free here [of "''doc2''" 0 7 8 "''doc3''"] by auto
  have moved: "next_ref (snd (get_or_create_room ''doc2'' 7 (run scenario_A initial_server))) = 2"
    using absent free here [of "''doc2''" 0 7 8 "''doc3''"] by auto
  have again: "fst (get_or_create_room ''doc2'' 8
                      (snd (get_or_create_room ''doc2'' 7 (run scenario_A initial_server)))) = 1"
    using new here [of "''doc2''" 0 7 8 "''doc3''"] by auto
  have another: "fst (get_or_create_room ''doc3'' 8
                      (snd (get_or_create_room ''doc2'' 7 (run scenario_A initial_server)))) \<noteq> 1"
    using new absent here [of "''doc2''" 0 7 8 "''doc3''"] by auto
  show ?thesis
    using present old absent(1) new moved again another by (intro conjI)
qed

section \<open>The end of a handler\<close>


text \<open>
  C4 (leave of an absent connection). The send to connection 2 failed during a broadcast,
  which removed it from the room while its handler was still running. When that handler
  reaches its \<open>finally\<close> block, \<open>remove\<close> raises KeyError: removing an absent connection
  is not a no-op.
\<close>

theorem C4_leave_of_removed_connection_raises:
  "sessions (run dropped_peer initial_server) 2 = Some (''doc1'', 0)
   \<and> 2 |\<notin>| connections (heap (run dropped_peer initial_server) 0)
   \<and> websocket_sync_finally 2 ''doc1'' 0 (run dropped_peer initial_server)
       = (Raises KeyError, run dropped_peer initial_server)"
  by (simp add: dropped_peer_def exec_defs)

text \<open>
  C5 (cleanup on every path). In the same run the client of connection 2 closes: the
  handler catches WebSocketDisconnect, its \<open>finally\<close> block raises KeyError at
  \<open>remove\<close>, before the test for an empty room, and the handler ends with the KeyError.
\<close>

theorem C5_handler_ends_with_KeyError:
  "sessions (run dropped_peer initial_server) 2 = Some (''doc1'', 0)
   \<and> finished (step (ReceiveRaises 2 WebSocketDisconnect) (run dropped_peer initial_server)) 2
       = Some (Raises KeyError)"
  by (simp add: dropped_peer_def exec_defs)

section \<open>The life of a room\<close>

lemma registry_okD:
  assumes "registry_ok s"
  shows "rooms s rid = Some r \<Longrightarrow> r < next_ref s \<and> room_id (heap s r) = rid"
    and "sessions s c = Some (rid, r) \<Longrightarrow> r < next_ref s \<and> room_id (heap s r) = rid"
    and "connections (heap s r) \<noteq> {||} \<Longrightarrow>
         r < next_ref s \<and> rooms s (room_id (heap s r)) = Some r"
  using assms unfolding registry_ok_def by blast+

lemma registry_okI:
  assumes "\<And>rid r. rooms s rid = Some r \<Longrightarrow> r < next_ref s \<and> room_id (heap s r) = rid"
    and "\<And>c rid r. sessions s c = Some (rid, r) \<Longrightarrow> r < next_ref s \<and> room_id (heap s r) = rid"
    and "\<And>r. connections (heap s r) \<noteq> {||} \<Longrightarrow>
           r < next_ref s \<and> rooms s (room_id (heap s r)) = Some r"
  shows "registry_ok s"
  using assms unfolding registry_ok_def by blast

lemma registry_net [simp]: "registry_ok (s\<lparr>net := t\<rparr>) = registry_ok s"
  by (simp add: registry_ok_def)

lemma registry_leave:
  assumes ok: "registry_ok s" and room: "room < next_ref s" "room_id (heap s room) = rid"
  shows "registry_ok (websocket_sync_leave w rid room e s)"
proof -
  note ok1 = registry_okD(1) [OF ok] and ok2 = registry_okD(2) [OF ok]
    and ok3 = registry_okD(3) [OF ok]
  consider (absent) "w |\<notin>| connections (heap s room)"
    | (stays) "w |\<in>| connections (heap s room)" "connections (heap s room) |-| {|w|} \<noteq> {||}"
    | (last) "w |\<in>| connections (heap s room)" "connections (heap s room) |-| {|w|} = {||}"
    by blast
  then show ?thesis
  proof cases
    case absent
    show ?thesis
      unfolding leave_absent [OF absent]
    proof (rule registry_okI, goal_cases)
      case (1 rid' r)
      then show ?case using ok1 [of rid' r] by auto
    next
      case (2 c rid' r)
      then show ?case using ok2 [of c rid' r] by (auto split: if_splits)
    next
      case (3 r)
      then show ?case using ok3 [of r] by auto
    qed
  next
    case stays
    show ?thesis
      unfolding leave_stays [OF stays]
    proof (rule registry_okI, goal_cases)
      case (1 rid' r)
      then show ?case using ok1 [of rid' r] by auto
    next
      case (2 c rid' r)
      then show ?case using ok2 [of c rid' r] by (auto split: if_splits)
    next
      case (3 r)
      then show ?case using ok3 [of r] stays(1) by (auto split: if_splits)
    qed
  next
    case last
    have "connections (heap s room) \<noteq> {||}"
      using last(1) by auto
    then have registered: "rooms s rid = Some room"
      using ok3 [of room] room by simp
    show ?thesis
      unfolding leave_last [OF last registered]
    proof (rule registry_okI, goal_cases)
      case (1 rid' r)
      then show ?case using ok1 [of rid' r] by (auto split: if_splits)
    next
      case (2 c rid' r)
      then show ?case using ok2 [of c rid' r] by (auto split: if_splits)
    next
      case (3 r)
      then have "r \<noteq> room" and "connections (heap s r) \<noteq> {||}"
        by (auto split: if_splits)
      then have "r < next_ref s \<and> rooms s (room_id (heap s r)) = Some r"
        using ok3 [of r] by auto
      then show ?case
        using registered \<open>r \<noteq> room\<close> by auto
    qed
  qed
qed

lemma registry_loop_body:
  assumes ok: "registry_ok s"
  shows "registry_ok (websocket_sync_loop_body w rid room data now s)"
proof (rule registry_okI, goal_cases)
  case (1 rid' r)
  then show ?case
    using registry_okD(1) [OF ok, of rid' r]
    by (auto simp add: websocket_sync_loop_body_def broadcast_eq update_room_def Let_def)
next
  case (2 c rid' r)
  then show ?case
    using registry_okD(2) [OF ok, of c rid' r]
    by (auto simp add: websocket_sync_loop_body_def broadcast_eq update_room_def Let_def)
next
  case (3 r)
  then have "connections (heap s r) \<noteq> {||}"
    by (auto simp add: websocket_sync_loop_body_def broadcast_eq update_room_def Let_def
          split: if_splits)
  then have "r < next_ref s \<and> rooms s (room_id (heap s r)) = Some r"
    by (rule registry_okD(3) [OF ok])
  then show ?case
    by (auto simp add: websocket_sync_loop_body_def broadcast_eq update_room_def Let_def)
qed

lemma registry_join:
  assumes ok: "registry_ok s"
  shows "registry_ok
           (update_room (fst (get_or_create_room rid now s))
              (\<lambda>r. r\<lparr>connections := finsert w (connections r)\<rparr>)
              (snd (get_or_create_room rid now s)))"
    (is "registry_ok ?s2")
proof (cases "rooms s rid")
  case None
  have eq: "?s2 = s\<lparr>heap := (heap s)(next_ref s :=
                        \<lparr>room_id = rid, connections = {|w|}, state = [], last_updated = now\<rparr>),
                    next_ref := Suc (next_ref s),
                    rooms := (rooms s)(rid \<mapsto> next_ref s)\<rparr>"
    using None by (simp add: get_or_create_room_def update_room_def DocumentRoom_init_def)
  show ?thesis
    unfolding eq
  proof (rule registry_okI, goal_cases)
    case (1 rid' r)
    then show ?case
      using registry_okD(1) [OF ok, of rid' r] by (auto split: if_splits)
  next
    case (2 c rid' r)
    then show ?case
      using registry_okD(2) [OF ok, of c rid' r] by (auto split: if_splits)
  next
    case (3 r)
    show ?case
    proof (cases "r = next_ref s")
      case True
      then show ?thesis by simp
    next
      case False
      then have "connections (heap s r) \<noteq> {||}"
        using 3 by auto
      then have "r < next_ref s \<and> rooms s (room_id (heap s r)) = Some r"
        by (rule registry_okD(3) [OF ok])
      then show ?thesis
        using False None by auto
    qed
  qed
next
  case (Some room)
  have eq: "?s2 = s\<lparr>heap := (heap s)(room :=
                        (heap s room)\<lparr>connections := finsert w (connections (heap s room))\<rparr>)\<rparr>"
    using Some by (simp add: get_or_create_room_def update_room_def)
  have room: "room < next_ref s" "room_id (heap s room) = rid"
    using registry_okD(1) [OF ok Some] by simp_all
  show ?thesis
    unfolding eq
  proof (rule registry_okI, goal_cases)
    case (1 rid' r)
    then show ?case
      using registry_okD(1) [OF ok, of rid' r] by auto
  next
    case (2 c rid' r)
    then show ?case
      using registry_okD(2) [OF ok, of c rid' r] by auto
  next
    case (3 r)
    show ?case
    proof (cases "r = room")
      case True
      then show ?thesis using Some room by simp
    next
      case False
      then have "connections (heap s r) \<noteq> {||}"
        using 3 by auto
      then have "r < next_ref s \<and> rooms s (room_id (heap s r)) = Some r"
        by (rule registry_okD(3) [OF ok])
      then show ?thesis
        using False by auto
    qed
  qed
qed

lemma registry_enter:
  assumes ok: "registry_ok s"
  shows "registry_ok (websocket_sync_enter w rid now s)"
proof -
  let ?room = "fst (get_or_create_room rid now s)"
  let ?s2 = "update_room ?room (\<lambda>r. r\<lparr>connections := finsert w (connections r)\<rparr>)
               (snd (get_or_create_room rid now s))"
  have ok2: "registry_ok ?s2"
    using ok by (rule registry_join)
  have "connections (heap ?s2 ?room) \<noteq> {||}"
    by (simp add: update_room_def)
  then have "?room < next_ref ?s2 \<and> rooms ?s2 (room_id (heap ?s2 ?room)) = Some ?room"
    by (rule registry_okD(3) [OF ok2])
  moreover have "room_id (heap ?s2 ?room) = rid"
    by (auto simp add: get_or_create_room_def update_room_def DocumentRoom_init_def
          registry_okD(1) [OF ok] split: option.splits)
  ultimately have room: "?room < next_ref ?s2" "room_id (heap ?s2 ?room) = rid"
    by simp_all
  have joined: "registry_ok (?s2\<lparr>net := t, sessions := (sessions ?s2)(w \<mapsto> (rid, ?room))\<rparr>)" for t
  proof (rule registry_okI, goal_cases)
    case (1 rid' r)
    then show ?case using registry_okD(1) [OF ok2, of rid' r] by auto
  next
    case (2 c rid' r)
    then show ?case using registry_okD(2) [OF ok2, of c rid' r] room by (auto split: if_splits)
  next
    case (3 r)
    then show ?case using registry_okD(3) [OF ok2, of r] by auto
  qed
  have left: "registry_ok (websocket_sync_leave w rid ?room e (?s2\<lparr>net := t\<rparr>))" for e t
    using ok2 room by (intro registry_leave) simp_all
  have joined': "registry_ok (?s2\<lparr>sessions := (sessions ?s2)(w \<mapsto> (rid, ?room))\<rparr>)"
    using joined [of "net ?s2"] by simp
  show ?thesis
    by (simp add: websocket_sync_enter_def split_beta Let_def joined joined' left
          split: result.splits)
qed

lemma registry_step: "registry_ok s \<Longrightarrow> registry_ok (step e s)"
proof (cases e)
  case (Connect c rid now)
  assume "registry_ok s"
  then show ?thesis using Connect by (simp add: registry_enter)
next
  case (Receive c data now)
  assume "registry_ok s"
  then show ?thesis using Receive by (simp add: registry_loop_body split: option.splits)
next
  case (ReceiveRaises c ex)
  assume ok: "registry_ok s"
  show ?thesis
  proof (cases "sessions s c")
    case None
    then show ?thesis using ok ReceiveRaises by simp
  next
    case (Some p)
    obtain rid room where p: "p = (rid, room)" by (cases p)
    have "room < next_ref s \<and> room_id (heap s room) = rid"
      using registry_okD(2) [OF ok] Some p by simp
    then show ?thesis
      using ok ReceiveRaises Some p by (simp add: registry_leave)
  qed
next
  case (SendFails c ex)
  assume "registry_ok s"
  then show ?thesis using SendFails by simp
qed

lemma registry_run: "registry_ok s \<Longrightarrow> registry_ok (run evs s)"
  by (induction evs arbitrary: s) (simp_all add: registry_step)

lemma registry_initial: "registry_ok initial_server"
  by (simp add: registry_ok_def initial_server_def DocumentRoom_init_def)

text \<open>A room that has a member is the room that the registry holds under its identifier.\<close>

lemma inhabited_room_is_registered:
  assumes "s = run evs initial_server" and "c |\<in>| connections (heap s r)"
  shows "rooms s (room_id (heap s r)) = Some r"
proof -
  have "registry_ok s"
    using assms(1) by (simp add: registry_run registry_initial)
  moreover have "connections (heap s r) \<noteq> {||}"
    using assms(2) by auto
  ultimately show ?thesis
    using registry_okD(3) by blast
qed

lemma calmD:
  assumes "calm s"
  shows "failing (net s) = Map.empty"
    and "sessions s c = Some (rid, r) \<Longrightarrow> c |\<in>| connections (heap s r)"
    and "rooms s rid = Some r \<Longrightarrow> connections (heap s r) \<noteq> {||}"
    and "finished s c = Some res \<Longrightarrow> res = Returns ()"
  using assms unfolding calm_def by blast+

lemma calmI:
  assumes "failing (net s) = Map.empty"
    and "\<And>c rid r. sessions s c = Some (rid, r) \<Longrightarrow> c |\<in>| connections (heap s r)"
    and "\<And>rid r. rooms s rid = Some r \<Longrightarrow> connections (heap s r) \<noteq> {||}"
    and "\<And>c res. finished s c = Some res \<Longrightarrow> res = Returns ()"
  shows "calm s"
  using assms unfolding calm_def by blast

lemma calm_loop_body:
  assumes "calm s"
  shows "calm (websocket_sync_loop_body w rid room data now s)"
proof (rule calmI, goal_cases)
  case 1
  show ?case using calmD(1) [OF assms] by simp
next
  case (2 c rid' r)
  then show ?case
    using calmD(2) [OF assms, of c rid' r]
    by (simp add: loop_body_connections_calm [OF calmD(1) [OF assms]])
next
  case (3 rid' r)
  then show ?case
    using calmD(3) [OF assms, of rid' r]
    by (simp add: loop_body_connections_calm [OF calmD(1) [OF assms]])
next
  case (4 c res)
  then show ?case using calmD(4) [OF assms, of c res] by simp
qed

lemma calm_leave:
  assumes calm: "calm s" and ok: "registry_ok s" and session: "sessions s w = Some (rid, room)"
  shows "calm (websocket_sync_leave w rid room e s)"
proof -
  have member: "w |\<in>| connections (heap s room)"
    using calmD(2) [OF calm session] .
  have room: "room < next_ref s \<and> room_id (heap s room) = rid"
    using registry_okD(2) [OF ok session] .
  have "connections (heap s room) \<noteq> {||}"
    using member by auto
  then have registered: "rooms s rid = Some room"
    using registry_okD(3) [OF ok, of room] room by simp
  show ?thesis
  proof (cases "connections (heap s room) |-| {|w|} = {||}")
    case False
    show ?thesis
      unfolding leave_stays [OF member False]
    proof (rule calmI, goal_cases)
      case 1
      show ?case using calmD(1) [OF calm] by simp
    next
      case (2 c rid' r)
      then show ?case using calmD(2) [OF calm, of c rid' r] by (auto split: if_splits)
    next
      case (3 rid' r)
      then show ?case using calmD(3) [OF calm, of rid' r] False by auto
    next
      case (4 c res)
      then show ?case using calmD(4) [OF calm, of c res] by (auto split: if_splits)
    qed
  next
    case True
    show ?thesis
      unfolding leave_last [OF member True registered]
    proof (rule calmI, goal_cases)
      case 1
      show ?case using calmD(1) [OF calm] by simp
    next
      case (2 c rid' r)
      then have "c \<noteq> w" and old: "sessions s c = Some (rid', r)"
        by (auto split: if_splits)
      have "c |\<in>| connections (heap s r)"
        using calmD(2) [OF calm old] .
      moreover have "r \<noteq> room"
        using calculation True \<open>c \<noteq> w\<close> by auto
      ultimately show ?case by simp
    next
      case (3 rid' r)
      then have "rid' \<noteq> rid" and old: "rooms s rid' = Some r"
        by (auto split: if_splits)
      have "r \<noteq> room"
        using registry_okD(1) [OF ok old] room \<open>rid' \<noteq> rid\<close> by auto
      then show ?case using calmD(3) [OF calm old] by simp
    next
      case (4 c res)
      then show ?case using calmD(4) [OF calm, of c res] by (auto split: if_splits)
    qed
  qed
qed

lemma calm_enter:
  assumes calm: "calm s" and ok: "registry_ok s"
  shows "calm (websocket_sync_enter w rid now s)"
proof -
  note enter = enter_calm [OF calmD(1) [OF calm], of w rid now]
  let ?room = "fst (get_or_create_room rid now s)"
  have fresh: "r < next_ref s \<Longrightarrow> rooms s rid = None \<Longrightarrow> r \<noteq> ?room" for r
    by (simp add: get_or_create_room_def)
  show ?thesis
  proof (rule calmI, goal_cases)
    case 1
    show ?case by (rule enter(1))
  next
    case (2 c rid' r)
    show ?case
    proof (cases "c = w")
      case True
      then have "r = ?room" using 2 by (auto simp add: enter)
      then show ?thesis using True by (simp add: enter)
    next
      case False
      then have old: "sessions s c = Some (rid', r)"
        using 2 by (simp add: enter)
      have "c |\<in>| connections (heap s r)"
        using calmD(2) [OF calm old] .
      moreover have "rooms s rid = Some r' \<Longrightarrow> ?room = r'" for r'
        by (simp add: get_or_create_room_def)
      moreover have "rooms s rid = None \<Longrightarrow> r \<noteq> ?room"
        using fresh registry_okD(2) [OF ok old] by simp
      ultimately show ?thesis
        by (cases "rooms s rid") (auto simp add: enter)
    qed
  next
    case (3 rid' r)
    show ?case
    proof (cases "r = ?room")
      case True
      then show ?thesis by (simp add: enter)
    next
      case False
      then have "rooms s rid' = Some r"
        using 3 by (auto simp add: enter split: if_splits)
      then show ?thesis
        using calmD(3) [OF calm] False by (simp add: enter)
    qed
  next
    case (4 c res)
    then show ?case using calmD(4) [OF calm, of c res] by (simp add: enter)
  qed
qed

lemma calm_step:
  assumes "calm s" and "registry_ok s" and "\<not> send_fails e"
  shows "calm (step e s)"
proof (cases e)
  case (Connect c rid now)
  then show ?thesis using assms by (simp add: calm_enter)
next
  case (Receive c data now)
  then show ?thesis using assms by (simp add: calm_loop_body split: option.splits)
next
  case (ReceiveRaises c ex)
  then show ?thesis using assms by (auto simp add: calm_leave split: option.splits)
next
  case (SendFails c ex)
  then show ?thesis using assms by simp
qed

lemma calm_run:
  "calm s \<Longrightarrow> registry_ok s \<Longrightarrow> list_all (\<lambda>e. \<not> send_fails e) evs \<Longrightarrow> calm (run evs s)"
  by (induction evs arbitrary: s) (simp_all add: calm_step registry_step)

lemma calm_initial: "calm initial_server"
  by (simp add: calm_def initial_server_def)

text \<open>
  In a run of the machine in which no send fails, every handler that has ended has
  returned normally, and the registry holds exactly the rooms that have a member.
\<close>

lemma runs_without_send_failure:
  assumes "list_all (\<lambda>e. \<not> send_fails e) evs" and "s = run evs initial_server"
  shows "finished s c = Some res \<Longrightarrow> res = Returns ()"
    and "rooms s rid = Some r \<Longrightarrow> connections (heap s r) \<noteq> {||}"
    and "connections (heap s r) \<noteq> {||} \<Longrightarrow> rooms s (room_id (heap s r)) = Some r"
proof -
  have calm: "calm s"
    using assms by (simp add: calm_run calm_initial registry_initial)
  have ok: "registry_ok s"
    using assms by (simp add: registry_run registry_initial)
  show "finished s c = Some res \<Longrightarrow> res = Returns ()"
    using calmD(4) [OF calm] by blast
  show "rooms s rid = Some r \<Longrightarrow> connections (heap s r) \<noteq> {||}"
    using calmD(3) [OF calm] by blast
  show "connections (heap s r) \<noteq> {||} \<Longrightarrow> rooms s (room_id (heap s r)) = Some r"
    using registry_okD(3) [OF ok] by blast
qed

text \<open>
  C6 (room lifecycle). After sends have failed in both directions, the room \<open>doc1\<close> has no
  member and both handlers have ended, each with KeyError from its \<open>finally\<close> block, yet
  the room is still registered; the next client that joins \<open>doc1\<close> finds the old room and
  is sent its old state.
\<close>

theorem C6_empty_room_stays_registered:
  "rooms (run both_dropped initial_server) ''doc1'' = Some 0
   \<and> connections (heap (run both_dropped initial_server) 0) = {||}
   \<and> sessions (run both_dropped initial_server) = Map.empty
   \<and> finished (run both_dropped initial_server) 1 = Some (Raises KeyError)
   \<and> finished (run both_dropped initial_server) 2 = Some (Raises KeyError)
   \<and> sent (net (step (Connect 3 ''doc1'' 4) (run both_dropped initial_server))) 3
       = [([0xAA, 0xBB], True)]"
  by (simp add: both_dropped_def exec_defs fun_eq_iff)

section \<open>Document persistence\<close>

lemma depth_nested [simp]: "depth (nested n) = n"
  by (induction n) simp_all

lemma file_name_inj [simp]: "file_name a = file_name b \<longleftrightarrow> a = b"
  by (simp add: file_name_def)

lemma serve_limits [simp]:
  "name_max (serve q fs) = name_max fs"
  "dump_max (serve q fs) = dump_max fs"
  "load_max (serve q fs) = load_max fs"
  by (cases q;
      simp add: save_document_def delete_document_def path_exists_def mkdir_parents_def
        write_file_def unlink_def Let_def
        split: result.splits bool.splits option.splits prod.splits)+

lemma serve_file:
  "storable (name_max fs) d \<Longrightarrow>
   lookup d (serve q fs) = last_saved (dump_max fs) d [q] (lookup d fs)"
  by (cases q)
     (auto simp add: save_document_def delete_document_def path_exists_def open_for_writing_def
        mkdir_parents_def write_file_def unlink_def lookup_def Let_def
        storable_def json_dump_def
        split: result.splits bool.splits option.splits prod.splits if_splits)

lemma last_saved_Cons:
  "last_saved k d (q # qs) doc = last_saved k d qs (last_saved k d [q] doc)"
  by (cases q) simp_all

lemma serve_all_file:
  "storable (name_max fs) d \<Longrightarrow>
   lookup d (serve_all qs fs) = last_saved (dump_max fs) d qs (lookup d fs)"
proof (induction qs arbitrary: fs)
  case Nil
  show ?case by simp
next
  case (Cons q qs)
  then show ?case
    by (simp add: serve_file last_saved_Cons [of _ d q qs] del: last_saved.simps)
qed

lemma serve_all_limits [simp]:
  "name_max (serve_all qs fs) = name_max fs"
  "dump_max (serve_all qs fs) = dump_max fs"
  "load_max (serve_all qs fs) = load_max fs"
  by (induction qs arbitrary: fs) simp_all

text \<open>Load and delete of an identifier whose file name the file system takes.\<close>

lemma get_document_eq:
  "storable (name_max fs) d \<Longrightarrow>
   get_document d fs =
     (case lookup d fs of
        None \<Rightarrow> (Raises (HTTPException 404 ''Document not found''), fs)
      | Some text \<Rightarrow> (json_load text (load_max fs), fs))"
  by (auto simp add: get_document_def path_exists_def lookup_def storable_def
        split: option.splits)

lemma delete_document_eq:
  "storable (name_max fs) d \<Longrightarrow>
   delete_document d fs =
     (case lookup d fs of
        None \<Rightarrow> (Raises (HTTPException 404 ''Document not found''), fs)
      | Some text \<Rightarrow>
          (Returns (JObj [(''status'', JStr ''deleted''), (''doc_id'', JStr d)]), unlink d fs))"
  by (auto simp add: delete_document_def path_exists_def lookup_def storable_def
        split: option.splits)

lemma lookup_unlink [simp]: "lookup d (unlink d fs) = None"
  by (simp add: lookup_def unlink_def split: option.splits)

lemma unlink_name_max [simp]: "name_max (unlink d fs) = name_max fs"
  by (simp add: unlink_def)

lemmas store_exec =
  get_document_def save_document_def delete_document_def path_exists_def
  open_for_writing_def mkdir_parents_def write_file_def unlink_def lookup_def
  json_dump_def json_load_def stored_record_def empty_store_def file_name_def Let_def

text \<open>
  C8 (persistence), as the code has it. Let \<open>d\<close> be an identifier whose file name the
  file system takes (no NUL byte, no \<open>/\<close>, not longer than \<open>name_max\<close>). On a server
  that starts without stored documents, a load of \<open>d\<close> fails with 404 exactly when
  \<open>d\<close> was never saved or was deleted after its last save; otherwise it is
  \<open>json.load\<close> of what the last save wrote. On a store without \<open>d\<close>, load and
  delete both fail with 404 and change nothing; on a store with \<open>d\<close>, delete removes
  the file and a load after it fails with 404. A save of a content that \<open>json.dump\<close>
  and \<open>json.load\<close> get through succeeds, and a load after it returns the record that
  the save wrote: the identifier, the saved content under \<open>content\<close>, and the time
  stamp.
\<close>

theorem C8_persistence:
  assumes "storable n d" and "name_max fs = n"
  shows "fst (get_document d (serve_all qs (empty_store n k l))) =
           (case last_saved k d qs None of
              None \<Rightarrow> Raises (HTTPException 404 ''Document not found'')
            | Some text \<Rightarrow> json_load text l)
   \<and> (lookup d fs = None \<longrightarrow>
        get_document d fs = (Raises (HTTPException 404 ''Document not found''), fs)
        \<and> delete_document d fs = (Raises (HTTPException 404 ''Document not found''), fs))
   \<and> (lookup d fs \<noteq> None \<longrightarrow>
        delete_document d fs =
          (Returns (JObj [(''status'', JStr ''deleted''), (''doc_id'', JStr d)]), unlink d fs)
        \<and> lookup d (unlink d fs) = None
        \<and> fst (get_document d (snd (delete_document d fs))) =
            Raises (HTTPException 404 ''Document not found''))
   \<and> (depth (JObj content) + 1 \<le> dump_max fs \<and> depth (JObj content) + 1 \<le> load_max fs \<longrightarrow>
        fst (save_document d content now fs) =
          Returns (JObj [(''status'', JStr ''saved''), (''doc_id'', JStr d)])
        \<and> fst (get_document d (snd (save_document d content now fs))) =
            Returns (JObj [(''id'', JStr d), (''content'', JObj content),
                           (''updated_at'', JStr now)]))"
proof -
  have here: "storable (name_max fs) d"
    using assms by simp
  have start: "storable (name_max (empty_store n k l)) d"
    and limits: "dump_max (empty_store n k l) = k" "load_max (empty_store n k l) = l"
    and vacant: "lookup d (empty_store n k l) = None"
    using assms(1) by (simp_all add: empty_store_def lookup_def)
  have there: "storable (name_max (serve_all qs (empty_store n k l))) d"
    using start by simp
  have "lookup d (serve_all qs (empty_store n k l)) = last_saved k d qs None"
    using serve_all_file [OF start, of qs] by (simp add: limits vacant)
  then have history: "fst (get_document d (serve_all qs (empty_store n k l))) =
           (case last_saved k d qs None of
              None \<Rightarrow> Raises (HTTPException 404 ''Document not found'')
            | Some text \<Rightarrow> json_load text l)"
    by (simp add: get_document_eq [OF there] limits split: option.splits)
  have absent: "lookup d fs = None \<longrightarrow>
        get_document d fs = (Raises (HTTPException 404 ''Document not found''), fs)
        \<and> delete_document d fs = (Raises (HTTPException 404 ''Document not found''), fs)"
    by (simp add: get_document_eq [OF here] delete_document_eq [OF here])
  have present: "lookup d fs \<noteq> None \<longrightarrow>
        delete_document d fs =
          (Returns (JObj [(''status'', JStr ''deleted''), (''doc_id'', JStr d)]), unlink d fs)
        \<and> lookup d (unlink d fs) = None
        \<and> fst (get_document d (snd (delete_document d fs))) =
            Raises (HTTPException 404 ''Document not found'')"
    using here by (auto simp add: get_document_eq delete_document_eq)
  have deep: "depth (stored_record d content now) = depth (JObj content) + 1"
    by (simp add: stored_record_def)
  have saved: "depth (JObj content) + 1 \<le> dump_max fs \<and> depth (JObj content) + 1 \<le> load_max fs \<longrightarrow>
        fst (save_document d content now fs) =
          Returns (JObj [(''status'', JStr ''saved''), (''doc_id'', JStr d)])
        \<and> fst (get_document d (snd (save_document d content now fs))) =
            Returns (JObj [(''id'', JStr d), (''content'', JObj content),
                           (''updated_at'', JStr now)])"
    using assms deep
    by (auto simp add: get_document_def save_document_def path_exists_def
          open_for_writing_def storable_def json_dump_def json_load_def
          mkdir_parents_def write_file_def lookup_def Let_def stored_record_def
          split: option.splits)
  show ?thesis
    using history absent present saved by (intro conjI)
qed

theorem C8_persistence_witness:
  "storable 255 ''d1''
   \<and> last_saved 1000 ''d1'' [Save ''d1'' [(''title'', JStr ''x'')] ''t0'', Delete ''d1''] None
       = None
   \<and> fst (get_document ''d1''
            (serve_all [Save ''d1'' [(''title'', JStr ''x'')] ''t0'', Delete ''d1'']
               (empty_store 255 1000 996)))
       = Raises (HTTPException 404 ''Document not found'')
   \<and> fst (delete_document ''d1'' (empty_store 255 1000 996))
       = Raises (HTTPException 404 ''Document not found'')
   \<and> depth (JObj [(''title'', JStr ''x''), (''size'', JFloat 0)]) + 1
       \<le> dump_max (empty_store 255 1000 996)
   \<and> depth (JObj [(''title'', JStr ''x''), (''size'', JFloat 0)]) + 1
       \<le> load_max (empty_store 255 1000 996)
   \<and> fst (get_document ''d1''
            (snd (save_document ''d1'' [(''title'', JStr ''x''), (''size'', JFloat 0)] ''t0''
                    (empty_store 255 1000 996))))
       = Returns (JObj [(''id'', JStr ''d1''),
                        (''content'', JObj [(''title'', JStr ''x''), (''size'', JFloat 0)]),
                        (''updated_at'', JStr ''t0'')])"
proof -
  have ok: "storable 255 ''d1''"
    by (simp add: storable_def file_name_def)
  have limit: "name_max (empty_store 255 1000 996) = 255"
    and none: "lookup ''d1'' (empty_store 255 1000 996) = None"
    and shallow: "depth (JObj [(''title'', JStr ''x''), (''size'', JFloat 0)]) + 1
                    \<le> dump_max (empty_store 255 1000 996)"
      "depth (JObj [(''title'', JStr ''x''), (''size'', JFloat 0)]) + 1
                    \<le> load_max (empty_store 255 1000 996)"
    by (simp_all add: empty_store_def lookup_def)
  show ?thesis
    using ok none shallow
      C8_persistence [OF ok limit,
        of "[Save ''d1'' [(''title'', JStr ''x'')] ''t0'', Delete ''d1'']" 1000 996
           "[(''title'', JStr ''x''), (''size'', JFloat 0)]" "''t0''"]
    by simp
qed

text \<open>
  C8 as stated fails in three ways, shown on a file system that takes names of 255 bytes,
  with an encoder that gets through 1000 levels and a decoder that gets through 996. A
  load after a save returns the record around the saved content, not the saved content.
  Once the directory exists, load and delete of a never saved identifier of 251 bytes fail
  with OSError, not with 404; a save under that identifier fails too, and so does a save
  under an identifier with a NUL byte. And a save of a content nested 996 deep succeeds,
  but the load after it fails with RecursionError: the record in the file is nested one
  level deeper than the content.
\<close>

theorem C8_stored_record_and_limits_counterexample:
  "fst (get_document ''d1''
          (snd (save_document ''d1'' [(''title'', JStr ''x'')] ''t0''
                  (empty_store 255 1000 996))))
     \<noteq> Returns (JObj [(''title'', JStr ''x'')])
   \<and> fst (get_document long_id
            (snd (save_document ''d1'' [(''title'', JStr ''x'')] ''t0''
                    (empty_store 255 1000 996)))) = Raises OSError
   \<and> fst (delete_document long_id
            (snd (save_document ''d1'' [(''title'', JStr ''x'')] ''t0''
                    (empty_store 255 1000 996)))) = Raises OSError
   \<and> fst (save_document long_id [] ''t0'' (empty_store 255 1000 996)) = Raises OSError
   \<and> fst (save_document [CHR ''a'', CHR 0x00] [] ''t0'' (empty_store 255 1000 996))
       = Raises ValueError
   \<and> fst (save_document ''d2'' [(''a'', nested 995)] ''t0'' (empty_store 255 1000 996))
       = Returns (JObj [(''status'', JStr ''saved''), (''doc_id'', JStr ''d2'')])
   \<and> fst (get_document ''d2''
            (snd (save_document ''d2'' [(''a'', nested 995)] ''t0''
                    (empty_store 255 1000 996))))
       = Raises RecursionError"
  by (simp add: store_exec long_id_def)

end
